theory Spec2Isabelle
  imports Complex_Main "HOL-Library.AList" "HOL-Library.Sublist"
begin

section \<open>The world of \<open>master_runner_short.py\<close>\<close>

text \<open>
  The script is an orchestrator: it reads and changes a project directory, starts
  external processes, imports an e-mail collaborator and writes a log. Each of its
  functions is embedded as a function from a \<open>world\<close> to a result and the world
  afterwards. What the script cannot decide itself (how a child process exits, whether an
  import works, what the e-mail sender returns) is a field of the world, so that every
  theorem quantifies over all behaviours of the collaborators.

  A Python function either returns a value or raises; its result is \<open>exn + 'a\<close>, with
  \<open>Inl\<close> the exception that leaves the function.
\<close>

subsection \<open>Exceptions\<close>

text \<open>
  The handlers of the script name two classes, \<open>subprocess.CalledProcessError\<close> and
  \<open>Exception\<close>. \<open>CalledProcessError\<close> carries \<open>returncode\<close>, \<open>stdout\<close> and \<open>stderr\<close>
  (\<open>None\<close> when the output was not captured). \<open>OtherException\<close> is any other instance
  of \<open>Exception\<close> (\<open>FileNotFoundError\<close>, \<open>IsADirectoryError\<close>, \<open>ImportError\<close>, ...), with
  its text. \<open>SystemExiting\<close> stands for the classes that derive from \<open>BaseException\<close> only
  (\<open>KeyboardInterrupt\<close>, \<open>SystemExit\<close>): \<open>except Exception\<close> does not catch them. No
  operation modelled here raises one: they are delivered asynchronously to the process.
\<close>

datatype exn =
    CalledProcessError int "string option" "string option"
  | OtherException string
  | SystemExiting string

fun is_CalledProcessError :: "exn \<Rightarrow> bool" where
  "is_CalledProcessError (CalledProcessError rc out err) = True"
| "is_CalledProcessError (OtherException s) = False"
| "is_CalledProcessError (SystemExiting s) = False"

fun is_Exception :: "exn \<Rightarrow> bool" where
  "is_Exception (CalledProcessError rc out err) = True"
| "is_Exception (OtherException s) = True"
| "is_Exception (SystemExiting s) = False"

text \<open>Python's truth value of \<open>e.stdout\<close>: \<open>None\<close> and the empty string are false.\<close>

fun truthy :: "string option \<Rightarrow> bool" where
  "truthy None = False"
| "truthy (Some s) = (s \<noteq> [])"

subsection \<open>The project directory\<close>

text \<open>
  The script looks at three directories (\<open>docs\<close>, \<open>results\<close>, \<open>logs\<close>), which it
  reaches through \<open>Path(__file__).parent\<close>, and at the presence of three files
  (the interpreter of the virtual environment and the two scripts), which it names
  relative to the working directory. It is meant to be run from the directory it lives
  in (its own comment: "Scripts are in the current directory now"): the two are one
  project root, and \<open>results\<close> is that one directory also where
  \<open>send_email_report\<close> names it relative to the working directory.
  An entry of a directory is a regular file
  (content, modification time) or a subdirectory (modification time); a directory is an
  association list of names and entries, read through \<open>map_of\<close> (the first binding of a
  name is the entry) and listed without repetition of a name, in the order of the list,
  which stands for the order in which the operating system lists the directory. Times are the seconds of
  \<open>time.time()\<close> and \<open>st_mtime\<close>, taken as real numbers. Symbolic links, permissions
  and I/O faults are not modelled.

  \<open>cwd_exists\<close> is what the operating system answers to \<open>os.getcwd()\<close>: the call
  raises \<open>FileNotFoundError\<close> once the directory the process works in has been removed,
  which a child process can do while the script waits for it. The other fields are what
  the script finds under the paths it uses, whatever that answer is (in a working
  directory that has been removed it finds none of the three files).
\<close>

datatype entry = File string real | Subdir real

fun entry_mtime :: "entry \<Rightarrow> real" where
  "entry_mtime (File c t) = t"
| "entry_mtime (Subdir t) = t"

type_synonym entries = "(string \<times> entry) list"

datatype dirstate = Missing | NotDir | IsDir entries

record filesystem =
  docs_dir :: dirstate
  results_dir :: dirstate
  logs_dir :: dirstate
  venv_python_exists :: bool
  sentiment_script_exists :: bool
  dashboard_script_exists :: bool
  cwd_exists :: bool

subsection \<open>Child processes, collaborators and the trace\<close>

text \<open>
  A child process exits with a status, or cannot be started at all (\<open>Fault\<close>: the
  executable is missing, the argument list is empty, ...); while it runs it may change
  the project directory.
\<close>

datatype outcome = Exit int | Fault string

record proc_result =
  status :: outcome
  effect :: "filesystem \<Rightarrow> filesystem"

type_synonym environment = "(string \<times> string) list"

type_synonym dataframe = "string list list"

datatype level = INFO | WARNING | ERROR

text \<open>
  The trace records, in order, what the script does to the outside: the functions it
  enters, the log records it writes (level and the message's format string, without the
  pictograph that opens most messages and with the interpolated fields left as written in
  the source), the processes it starts (argument list, working directory, environment),
  its sleeps, its changes of the file system (\<open>OpenAppend\<close> is the opening of a file for
  appending, which creates it when it is not there), its imports and its calls of the
  e-mail collaborator.
\<close>

datatype event =
    Call string
  | Log level string
  | Run "string list" string environment
  | Sleep nat
  | Rmtree string
  | Mkdir string
  | Copy2 string string
  | Unlink string
  | OpenAppend string
  | Import string
  | ReadCsv string
  | SendEmail dataframe bool

record world =
  environ :: environment
  cwd :: string
  sys_executable :: string
  timestamp :: string
  now :: real
  fs :: filesystem
  procs :: "nat \<Rightarrow> string list \<Rightarrow> proc_result"
  ncalls :: nat
  import_module :: "string \<Rightarrow> string option"
  read_csv :: "string \<Rightarrow> string + dataframe"
  sender_init :: "string option"
  send_email :: "dataframe \<Rightarrow> bool \<Rightarrow> string + bool"
  trace :: "event list"

text \<open>
  \<open>procs w n command\<close> is what the \<open>n\<close>-th process started since the beginning does
  when it is started with \<open>command\<close>; \<open>ncalls\<close> counts the processes started so far.
  \<open>timestamp\<close> is \<open>datetime.now().strftime('%Y-%m-%d %H:%M:%S')\<close> and \<open>now\<close> is
  \<open>time.time()\<close>. The collaborators answer with a value or with the text of the
  exception (an instance of \<open>Exception\<close>) they raise: \<open>import_module\<close> for an
  \<open>import\<close> statement, \<open>read_csv\<close> for \<open>pandas.read_csv\<close> of a path, \<open>sender_init\<close>
  for \<open>SentimentEmailSender()\<close>, and \<open>send_email\<close> for its method \<open>send_email\<close>,
  whose result is read as a truth value.

  Every function receives its logger as an argument. What a logger does with a record
  depends on the handlers installed on the root logger of the process, which is not
  decided in this file (\<open>logging.basicConfig\<close> installs none when there are some
  already): the records handed to the logger are the \<open>Log\<close> events of the trace, and the
  bytes a handler appends to a file are not added to an entry of the file system.
\<close>

definition emit :: "event \<Rightarrow> world \<Rightarrow> world" where
  "emit e w = w\<lparr>trace := trace w @ [e]\<rparr>"

definition log :: "level \<Rightarrow> string \<Rightarrow> world \<Rightarrow> world" where
  "log l m w = emit (Log l m) w"

definition sleep :: "nat \<Rightarrow> world \<Rightarrow> world" where
  "sleep n w = (emit (Sleep n) w)\<lparr>now := now w + real n\<rparr>"

text \<open>
  \<open>subprocess.run(command, check=True, ...)\<close>: the output is not captured, so the
  \<open>CalledProcessError\<close> of a non-zero exit has \<open>stdout = stderr = None\<close>.
\<close>

definition subprocess_run ::
  "string list \<Rightarrow> string \<Rightarrow> environment \<Rightarrow> world \<Rightarrow> (exn + unit) \<times> world" where
  "subprocess_run command dir env w =
     (let r = procs w (ncalls w) command;
          w' = (emit (Run command dir env) w)
                 \<lparr>fs := effect r (fs w), ncalls := Suc (ncalls w)\<rparr>
      in case status r of
           Exit rc \<Rightarrow>
             if rc = 0 then (Inr (), w')
             else (Inl (CalledProcessError rc None None), w')
         | Fault s \<Rightarrow> (Inl (OtherException s), w'))"

text \<open>
  \<open>os.getcwd()\<close>, which \<open>Path.cwd()\<close> and \<open>Path.absolute()\<close> call as well. The
  path it returns is absolute and has no trailing separator, the root \<open>/\<close> apart.
\<close>

definition getcwd :: "world \<Rightarrow> (exn + string) \<times> world" where
  "getcwd w =
     (if cwd_exists (fs w) then (Inr (cwd w), w)
      else (Inl (OtherException ''FileNotFoundError''), w))"

section \<open>\<open>run_command_with_logging\<close>\<close>

text \<open>
  \<open>subprocess.run(command, check=True, text=True, cwd=os.getcwd(), env=env)\<close>: the
  arguments are evaluated before the process is started.
\<close>

definition start_process ::
  "string list \<Rightarrow> environment \<Rightarrow> world \<Rightarrow> (exn + unit) \<times> world" where
  "start_process command env w =
     (case getcwd w of
        (Inl e, w1) \<Rightarrow> (Inl e, w1)
      | (Inr dir, w1) \<Rightarrow> subprocess_run command dir env w1)"

text \<open>
  The body of the \<open>for\<close> loop is two nested \<open>try\<close> statements. The inner one runs the
  process and returns \<open>True\<close>, or catches \<open>CalledProcessError\<close>, logs it and returns
  \<open>False\<close>; any other exception leaves it.
\<close>

definition inner_try :: "string list \<Rightarrow> environment \<Rightarrow> world \<Rightarrow> (exn + bool) \<times> world" where
  "inner_try command env w =
     (case start_process command env w of
        (Inr u, w1) \<Rightarrow> (Inr True, w1)
      | (Inl (CalledProcessError rc out err), w1) \<Rightarrow>
          (let w2 = log ERROR ''Command failed with exit code {e.returncode}'' w1;
               w3 = (if truthy out then log ERROR ''Output: {e.stdout}'' w2 else w2);
               w4 = (if truthy err then log ERROR ''Error: {e.stderr}'' w3 else w3)
           in (Inr False, w4))
      | (Inl e, w1) \<Rightarrow> (Inl e, w1))"

text \<open>
  One pass of the loop either returns from the function or goes on to the next attempt.
  The outer \<open>try\<close> has a handler for \<open>CalledProcessError\<close> (log, then give up at the last
  attempt or sleep 5 seconds and go on) and one for \<open>Exception\<close> (log and return
  \<open>False\<close>); an exception that matches neither leaves the function.
\<close>

datatype flow = Return bool | Continue

definition attempt_body ::
  "string list \<Rightarrow> string \<Rightarrow> int \<Rightarrow> environment \<Rightarrow> int \<Rightarrow> world \<Rightarrow> (exn + flow) \<times> world" where
  "attempt_body command description max_retries env attempt w =
     (let w0 = log INFO ''Attempt {attempt}/{max_retries}: {command}'' w
      in case inner_try command env w0 of
           (Inr b, w1) \<Rightarrow> (Inr (Return b), w1)
         | (Inl e, w1) \<Rightarrow>
             if is_CalledProcessError e then
               (case e of
                  CalledProcessError rc out err \<Rightarrow>
                    (let w2 = log ERROR ''Attempt {attempt} failed: {e}'' w1;
                         w3 = (if truthy out then log ERROR ''STDOUT: {e.stdout}'' w2 else w2);
                         w4 = (if truthy err then log ERROR ''STDERR: {e.stderr}'' w3 else w3)
                     in if attempt = max_retries then
                          (Inr (Return False),
                           log ERROR ''All {max_retries} attempts failed for: {description}'' w4)
                        else
                          (Inr Continue, sleep 5 (log INFO ''Retrying in 5 seconds...'' w4)))
                | _ \<Rightarrow> (Inl e, w1))
             else if is_Exception e then
               (Inr (Return False), log ERROR ''Unexpected error in {description}: {e}'' w1)
             else (Inl e, w1))"

text \<open>The loop over \<open>range(1, max_retries + 1)\<close>, and the \<open>return False\<close> after it.\<close>

fun attempts ::
  "string list \<Rightarrow> string \<Rightarrow> int \<Rightarrow> environment \<Rightarrow> int list \<Rightarrow> world \<Rightarrow> (exn + bool) \<times> world" where
  "attempts command description max_retries env [] w = (Inr False, w)"
| "attempts command description max_retries env (attempt # rest) w =
     (case attempt_body command description max_retries env attempt w of
        (Inr (Return b), w1) \<Rightarrow> (Inr b, w1)
      | (Inr Continue, w1) \<Rightarrow> attempts command description max_retries env rest w1
      | (Inl e, w1) \<Rightarrow> (Inl e, w1))"

text \<open>
  The function opens with \<open>env = os.environ.copy(); env['PYTHONPATH'] = str(Path.cwd())\<close>,
  outside every \<open>try\<close>: an exception of \<open>Path.cwd()\<close> leaves the function. Assignment to
  a dictionary replaces the value of a key that is there and adds the key otherwise.
\<close>

definition run_command_with_logging ::
  "string list \<Rightarrow> string \<Rightarrow> int \<Rightarrow> world \<Rightarrow> (exn + bool) \<times> world" where
  "run_command_with_logging command description max_retries w =
     (case getcwd (emit (Call ''run_command_with_logging'') w) of
        (Inl e, w1) \<Rightarrow> (Inl e, w1)
      | (Inr wd, w1) \<Rightarrow>
          (let env = AList.update ''PYTHONPATH'' wd (environ w1)
           in attempts command description max_retries env [1..max_retries] w1))"

section \<open>Sequencing and handlers\<close>

text \<open>
  Statements in sequence: the second runs in the world the first leaves, unless the first
  raised. \<open>except_Exception\<close> is \<open>try: body except Exception as e: handler\<close>.
\<close>

definition and_then ::
  "(world \<Rightarrow> (exn + 'a) \<times> world) \<Rightarrow> ('a \<Rightarrow> world \<Rightarrow> (exn + 'b) \<times> world) \<Rightarrow>
   world \<Rightarrow> (exn + 'b) \<times> world" where
  "and_then m k w = (case m w of (Inl e, w1) \<Rightarrow> (Inl e, w1) | (Inr a, w1) \<Rightarrow> k a w1)"

definition returns :: "'a \<Rightarrow> world \<Rightarrow> (exn + 'a) \<times> world" where
  "returns a w = (Inr a, w)"

definition raise :: "exn \<Rightarrow> world \<Rightarrow> (exn + 'a) \<times> world" where
  "raise e w = (Inl e, w)"

definition do_log :: "level \<Rightarrow> string \<Rightarrow> world \<Rightarrow> (exn + unit) \<times> world" where
  "do_log l m w = (Inr (), log l m w)"

definition except_Exception ::
  "(world \<Rightarrow> (exn + 'a) \<times> world) \<Rightarrow> (exn \<Rightarrow> world \<Rightarrow> (exn + 'a) \<times> world) \<Rightarrow>
   world \<Rightarrow> (exn + 'a) \<times> world" where
  "except_Exception body handler w =
     (case body w of
        (Inr a, w1) \<Rightarrow> (Inr a, w1)
      | (Inl e, w1) \<Rightarrow> if is_Exception e then handler e w1 else (Inl e, w1))"

section \<open>File system operations\<close>

definition dir_lookup :: "dirstate \<Rightarrow> string \<Rightarrow> entry option" where
  "dir_lookup d name = (case d of IsDir es \<Rightarrow> map_of es name | _ \<Rightarrow> None)"

text \<open>
  The patterns the script globs with have one \<open>*\<close>: \<open>prefix*suffix\<close> matches a name
  that starts with the prefix and ends with the suffix, the two not overlapping.
  \<open>Path.glob\<close> of something that is not a directory yields nothing.
\<close>

definition fnmatch :: "string \<Rightarrow> string \<Rightarrow> string \<Rightarrow> bool" where
  "fnmatch pre suf name \<longleftrightarrow>
     length pre + length suf \<le> length name \<and> take (length pre) name = pre \<and>
     drop (length name - length suf) name = suf"

definition glob :: "string \<Rightarrow> string \<Rightarrow> dirstate \<Rightarrow> string list" where
  "glob pre suf d =
     (case d of
        IsDir es \<Rightarrow> filter (fnmatch pre suf) (map fst (AList.clearjunk es))
      | _ \<Rightarrow> [])"

text \<open>\<open>shutil.rmtree(docs_dir)\<close>; on a regular file it raises \<open>NotADirectoryError\<close>.\<close>

definition rmtree_docs :: "world \<Rightarrow> (exn + unit) \<times> world" where
  "rmtree_docs w =
     (let w1 = emit (Rmtree ''docs'') w
      in case docs_dir (fs w) of
           IsDir es \<Rightarrow> (Inr (), w1\<lparr>fs := (fs w)\<lparr>docs_dir := Missing\<rparr>\<rparr>)
         | NotDir \<Rightarrow> (Inl (OtherException ''NotADirectoryError''), w1)
         | Missing \<Rightarrow> (Inl (OtherException ''FileNotFoundError''), w1))"

text \<open>\<open>docs_dir.mkdir(exist_ok=True)\<close>; it raises when the path is a regular file.\<close>

definition mkdir_docs :: "world \<Rightarrow> (exn + unit) \<times> world" where
  "mkdir_docs w =
     (let w1 = emit (Mkdir ''docs'') w
      in case docs_dir (fs w) of
           Missing \<Rightarrow> (Inr (), w1\<lparr>fs := (fs w)\<lparr>docs_dir := IsDir []\<rparr>\<rparr>)
         | IsDir es \<Rightarrow> (Inr (), w1)
         | NotDir \<Rightarrow> (Inl (OtherException ''FileExistsError''), w1))"

text \<open>
  \<open>shutil.copy2(results_dir / src, docs_dir / dst)\<close> copies content and modification
  time. It raises when the source is missing or a directory and when \<open>docs\<close> is not a
  directory; when the destination is a subdirectory the copy goes inside it, and the
  listing of \<open>docs\<close> stays as it is.
\<close>

definition copy2_to_docs :: "string \<Rightarrow> string \<Rightarrow> world \<Rightarrow> (exn + unit) \<times> world" where
  "copy2_to_docs src dst w =
     (let w1 = emit (Copy2 (''results/'' @ src) (''docs/'' @ dst)) w
      in case dir_lookup (results_dir (fs w)) src of
           None \<Rightarrow> (Inl (OtherException ''FileNotFoundError''), w1)
         | Some (Subdir t) \<Rightarrow> (Inl (OtherException ''IsADirectoryError''), w1)
         | Some (File c t) \<Rightarrow>
             (case docs_dir (fs w) of
                IsDir es \<Rightarrow>
                  (case map_of es dst of
                     Some (Subdir t') \<Rightarrow> (Inr (), w1)
                   | _ \<Rightarrow> (Inr (),
                        w1\<lparr>fs := (fs w)\<lparr>docs_dir := IsDir (AList.update dst (File c t) es)\<rparr>\<rparr>))
              | Missing \<Rightarrow> (Inl (OtherException ''FileNotFoundError''), w1)
              | NotDir \<Rightarrow> (Inl (OtherException ''NotADirectoryError''), w1)))"

text \<open>\<open>log_file.unlink()\<close> in \<open>logs\<close>; on a directory it raises (\<open>IsADirectoryError\<close>).\<close>

definition unlink_log :: "string \<Rightarrow> world \<Rightarrow> (exn + unit) \<times> world" where
  "unlink_log name w =
     (let w1 = emit (Unlink (''logs/'' @ name)) w
      in case logs_dir (fs w) of
           IsDir es \<Rightarrow>
             (case map_of es name of
                Some (File c t) \<Rightarrow>
                  (Inr (), w1\<lparr>fs := (fs w)\<lparr>logs_dir := IsDir (AList.delete name es)\<rparr>\<rparr>)
              | Some (Subdir t) \<Rightarrow> (Inl (OtherException ''IsADirectoryError''), w1)
              | None \<Rightarrow> (Inl (OtherException ''FileNotFoundError''), w1))
         | _ \<Rightarrow> (Inl (OtherException ''FileNotFoundError''), w1))"

text \<open>\<open>log_dir.mkdir(exist_ok=True)\<close>; it raises when the path is a regular file.\<close>

definition mkdir_logs :: "world \<Rightarrow> (exn + unit) \<times> world" where
  "mkdir_logs w =
     (let w1 = emit (Mkdir ''logs'') w
      in case logs_dir (fs w) of
           Missing \<Rightarrow> (Inr (), w1\<lparr>fs := (fs w)\<lparr>logs_dir := IsDir []\<rparr>\<rparr>)
         | IsDir es \<Rightarrow> (Inr (), w1)
         | NotDir \<Rightarrow> (Inl (OtherException ''FileExistsError''), w1))"

text \<open>
  \<open>logging.FileHandler(log_dir / name)\<close> opens the file for appending at once: a file
  that is not there is created empty, one that is there is left as it is, and a
  directory of that name makes the constructor raise.
\<close>

definition open_log_file :: "string \<Rightarrow> world \<Rightarrow> (exn + unit) \<times> world" where
  "open_log_file name w =
     (let w1 = emit (OpenAppend (''logs/'' @ name)) w
      in case logs_dir (fs w) of
           IsDir es \<Rightarrow>
             (case map_of es name of
                None \<Rightarrow>
                  (Inr (),
                   w1\<lparr>fs := (fs w)\<lparr>logs_dir := IsDir (AList.update name (File [] (now w)) es)\<rparr>\<rparr>)
              | Some (File c t) \<Rightarrow> (Inr (), w1)
              | Some (Subdir t) \<Rightarrow> (Inl (OtherException ''IsADirectoryError''), w1))
         | Missing \<Rightarrow> (Inl (OtherException ''FileNotFoundError''), w1)
         | NotDir \<Rightarrow> (Inl (OtherException ''NotADirectoryError''), w1))"

text \<open>\<open>path.stat()\<close> of a name in one of the three directories.\<close>

definition stat ::
  "(filesystem \<Rightarrow> dirstate) \<Rightarrow> string \<Rightarrow> world \<Rightarrow> (exn + entry) \<times> world" where
  "stat dir name w =
     (case dir_lookup (dir (fs w)) name of
        None \<Rightarrow> (Inl (OtherException ''FileNotFoundError''), w)
      | Some e \<Rightarrow> (Inr e, w))"

section \<open>\<open>copy_to_docs\<close>\<close>

text \<open>The loop over \<open>results_dir.glob("articles_*_latest.html")\<close>, counting the copies.\<close>

fun copy_articles :: "string list \<Rightarrow> nat \<Rightarrow> world \<Rightarrow> (exn + nat) \<times> world" where
  "copy_articles [] article_count w = (Inr article_count, w)"
| "copy_articles (article_file # rest) article_count w =
     (case copy2_to_docs article_file article_file w of
        (Inl e, w1) \<Rightarrow> (Inl e, w1)
      | (Inr u, w1) \<Rightarrow> copy_articles rest (article_count + 1) w1)"

text \<open>
  The \<open>try\<close> block in four parts, in the order of the source: clean the directory
  ("remove historic data"), create it again, copy the report under its two names, copy the
  article pages.
\<close>

definition clean_docs :: "world \<Rightarrow> (exn + unit) \<times> world" where
  "clean_docs w =
     (if docs_dir (fs w) \<noteq> Missing
      then rmtree_docs (log INFO ''Cleaning docs directory of historic data...'' w)
      else (Inr (), w))"

definition copy_report :: "world \<Rightarrow> (exn + unit) \<times> world" where
  "copy_report w =
     (if dir_lookup (results_dir (fs w)) ''sentiment_report_latest.html'' \<noteq> None
      then and_then (copy2_to_docs ''sentiment_report_latest.html'' ''index.html'')
          (\<lambda>u. and_then (copy2_to_docs ''sentiment_report_latest.html''
                            ''sentiment_report_latest.html'')
          (\<lambda>u. do_log INFO
             ''Copied main dashboard as index.html and sentiment_report_latest.html'')) w
      else do_log WARNING ''No sentiment report found to copy'' w)"

definition copy_latest_articles :: "world \<Rightarrow> (exn + nat) \<times> world" where
  "copy_latest_articles w =
     copy_articles (glob ''articles_'' ''_latest.html'' (results_dir (fs w))) 0 w"

definition copy_latest_files :: "world \<Rightarrow> (exn + bool) \<times> world" where
  "copy_latest_files =
     and_then copy_report
    (\<lambda>u. and_then copy_latest_articles
    (\<lambda>article_count. and_then
       (do_log INFO ''Copied {article_count} individual stock article pages (LATEST ONLY)'')
    (\<lambda>u. and_then
       (do_log INFO
          ''Sentiment dashboard will be available at: https://theemeraldnetwork.github.io/Kalimera/'')
    (\<lambda>u. returns True))))"

definition copy_to_docs_body :: "world \<Rightarrow> (exn + bool) \<times> world" where
  "copy_to_docs_body =
     and_then clean_docs (\<lambda>u. and_then mkdir_docs (\<lambda>u. copy_latest_files))"

definition copy_to_docs :: "world \<Rightarrow> (exn + bool) \<times> world" where
  "copy_to_docs w =
     except_Exception copy_to_docs_body
       (\<lambda>e. and_then (do_log ERROR ''Error copying files to docs: {e}'') (\<lambda>u. returns False))
       (emit (Call ''copy_to_docs'') w)"

section \<open>\<open>cleanup_old_logs\<close>\<close>

text \<open>
  The loop over \<open>logs_dir.glob('*.log')\<close>: each entry is \<open>stat\<close>ed when its turn
  comes, and unlinked when its modification time is below the bound. An exception leaves
  the loop.
\<close>

fun sweep_logs :: "real \<Rightarrow> string list \<Rightarrow> world \<Rightarrow> (exn + unit) \<times> world" where
  "sweep_logs thirty_days_ago [] w = (Inr (), w)"
| "sweep_logs thirty_days_ago (log_file # rest) w =
     (case stat logs_dir log_file w of
        (Inl e, w1) \<Rightarrow> (Inl e, w1)
      | (Inr st, w1) \<Rightarrow>
          if entry_mtime st < thirty_days_ago then
            (case unlink_log log_file w1 of
               (Inl e, w2) \<Rightarrow> (Inl e, w2)
             | (Inr u, w2) \<Rightarrow>
                 sweep_logs thirty_days_ago rest
                   (log INFO ''Deleted old log: {log_file.name}'' w2))
          else sweep_logs thirty_days_ago rest w1)"

definition cleanup_old_logs_body :: "world \<Rightarrow> (exn + unit) \<times> world" where
  "cleanup_old_logs_body w =
     (if logs_dir (fs w) = Missing then (Inr (), w)
      else
        (let current_time = now w;
             thirty_days_ago = current_time - (30 * 24 * 60 * 60)
         in sweep_logs thirty_days_ago (glob [] ''.log'' (logs_dir (fs w))) w))"

definition cleanup_old_logs :: "world \<Rightarrow> (exn + unit) \<times> world" where
  "cleanup_old_logs w =
     except_Exception cleanup_old_logs_body
       (\<lambda>e. do_log WARNING ''Log cleanup warning: {e}'')
       (emit (Call ''cleanup_old_logs'') w)"

section \<open>\<open>push_to_github\<close>\<close>

text \<open>
  \<open>subprocess.run(cmd, check=True)\<close> without \<open>cwd\<close> and \<open>env\<close>: the child inherits
  the working directory and the environment. Only \<open>CalledProcessError\<close> is caught.
\<close>

fun run_commands :: "string list list \<Rightarrow> world \<Rightarrow> (exn + unit) \<times> world" where
  "run_commands [] w = (Inr (), w)"
| "run_commands (cmd # rest) w =
     (case subprocess_run cmd (cwd w) (environ w) (log INFO ''Running: {cmd}'' w) of
        (Inl e, w1) \<Rightarrow> (Inl e, w1)
      | (Inr u, w1) \<Rightarrow> run_commands rest w1)"

definition push_to_github :: "world \<Rightarrow> (exn + bool) \<times> world" where
  "push_to_github w =
     (let commands =
            [[''git'', ''add'', ''results/*''],
             [''git'', ''add'', ''docs/*''],
             [''git'', ''commit'', ''-m'',
              ''Update sentiment analysis and dashboard - '' @ timestamp w],
             [''git'', ''push'']]
      in case run_commands commands (emit (Call ''push_to_github'') w) of
           (Inr u, w1) \<Rightarrow> (Inr True, log INFO ''Successfully pushed changes to GitHub'' w1)
         | (Inl e, w1) \<Rightarrow>
             if is_CalledProcessError e
             then (Inr False, log ERROR ''Error pushing to GitHub: {e}'' w1)
             else (Inl e, w1))"

section \<open>The e-mail collaborator\<close>

definition import_stmt :: "string \<Rightarrow> world \<Rightarrow> (exn + unit) \<times> world" where
  "import_stmt name w =
     (case import_module w name of
        None \<Rightarrow> (Inr (), emit (Import name) w)
      | Some msg \<Rightarrow> (Inl (OtherException msg), emit (Import name) w))"

definition pd_read_csv :: "string \<Rightarrow> world \<Rightarrow> (exn + dataframe) \<times> world" where
  "pd_read_csv path w =
     (case read_csv w path of
        Inr df \<Rightarrow> (Inr df, emit (ReadCsv path) w)
      | Inl msg \<Rightarrow> (Inl (OtherException msg), emit (ReadCsv path) w))"

definition new_sender :: "world \<Rightarrow> (exn + unit) \<times> world" where
  "new_sender w =
     (case sender_init w of None \<Rightarrow> (Inr (), w) | Some msg \<Rightarrow> (Inl (OtherException msg), w))"

definition sender_send_email :: "dataframe \<Rightarrow> bool \<Rightarrow> world \<Rightarrow> (exn + bool) \<times> world" where
  "sender_send_email df test_mode w =
     (case send_email w df test_mode of
        Inr success \<Rightarrow> (Inr success, emit (SendEmail df test_mode) w)
      | Inl msg \<Rightarrow> (Inl (OtherException msg), emit (SendEmail df test_mode) w))"

section \<open>\<open>send_email_report\<close>\<close>

fun contains :: "string \<Rightarrow> string \<Rightarrow> bool" where
  "contains pat [] = (pat = [])"
| "contains pat (c # cs) = (take (length pat) (c # cs) = pat \<or> contains pat cs)"

text \<open>
  \<open>max(summary_files, key=lambda f: f.stat().st_mtime)\<close>: the first file among those
  with the greatest modification time.
\<close>

fun max_by_mtime ::
  "string \<Rightarrow> real \<Rightarrow> string list \<Rightarrow> world \<Rightarrow> (exn + string) \<times> world" where
  "max_by_mtime best k [] w = (Inr best, w)"
| "max_by_mtime best k (f # rest) w =
     (case stat results_dir f w of
        (Inl e, w1) \<Rightarrow> (Inl e, w1)
      | (Inr st, w1) \<Rightarrow>
          if k < entry_mtime st then max_by_mtime f (entry_mtime st) rest w1
          else max_by_mtime best k rest w1)"

definition load_summary :: "world \<Rightarrow> (exn + dataframe option) \<times> world" where
  "load_summary w =
     (if dir_lookup (results_dir (fs w)) ''sentiment_summary_latest.csv'' \<noteq> None then
        and_then (pd_read_csv ''results/sentiment_summary_latest.csv'') (\<lambda>df. returns (Some df)) w
      else
        (let summary_files =
               filter (\<lambda>f. count_list f (CHR ''_'') = 2 \<and> \<not> contains ''latest'' f)
                 (glob ''sentiment_summary_'' ''.csv'' (results_dir (fs w)))
         in case summary_files of
              [] \<Rightarrow> (Inr None, log WARNING ''No sentiment summary files found'' w)
            | f # rest \<Rightarrow>
                and_then (stat results_dir f)
                  (\<lambda>st. and_then (max_by_mtime f (entry_mtime st) rest)
                  (\<lambda>latest_file. and_then (pd_read_csv (''results/'' @ latest_file))
                  (\<lambda>df. returns (Some df)))) w))"

definition send_email_report_body :: "world \<Rightarrow> (exn + bool) \<times> world" where
  "send_email_report_body =
     and_then (do_log INFO ''Sending email report...'')
    (\<lambda>u. and_then
       (import_stmt ''automated_sentiment_daily_analysis.utils.email.report_sender'')
    (\<lambda>u. and_then (import_stmt ''pandas'')
    (\<lambda>u. and_then load_summary
    (\<lambda>loaded. case loaded of
        None \<Rightarrow> returns False
      | Some summary_df \<Rightarrow>
          and_then new_sender
         (\<lambda>u. and_then (sender_send_email summary_df False)
         (\<lambda>sent. and_then (do_log INFO ''Email report sent successfully'')
         (\<lambda>u. returns True)))))))"

definition send_email_report :: "world \<Rightarrow> (exn + bool) \<times> world" where
  "send_email_report w =
     except_Exception send_email_report_body
       (\<lambda>e. and_then (do_log ERROR ''Error sending email report: {e}'') (\<lambda>u. returns False))
       (emit (Call ''send_email_report'') w)"

section \<open>\<open>setup_logging\<close>\<close>

text \<open>
  The function creates \<open>logs\<close> when it is missing, builds the two handlers (of which the
  file handler opens \<open>logs/tigro_master_detailed.log\<close>) and passes them to
  \<open>logging.basicConfig\<close>; the handlers are built before that call, whatever it does
  with them. Nothing here is inside a \<open>try\<close>.
\<close>

definition setup_logging :: "world \<Rightarrow> (exn + unit) \<times> world" where
  "setup_logging w =
     and_then mkdir_logs (\<lambda>u. open_log_file ''tigro_master_detailed.log'')
       (emit (Call ''setup_logging'') w)"

section \<open>\<open>main\<close>\<close>

text \<open>
  \<open>main\<close> is written from its end to its beginning, one definition for each of the
  source's steps; each definition is the rest of the function from that step on, since a
  \<open>return\<close> in a step ends the function. The commit message of the source opens with
  a pictograph, left out here as in the log messages. The banner reads \<open>os.getcwd()\<close>
  for its fourth line, before that line is logged.
\<close>

definition rule_line :: string where
  "rule_line = replicate 60 (CHR ''='')"

definition main_summary :: "world \<Rightarrow> (exn + bool) \<times> world" where
  "main_summary =
     and_then (do_log INFO rule_line)
    (\<lambda>u. and_then (do_log INFO ''DAILY AUTOMATION COMPLETED SUCCESSFULLY'')
    (\<lambda>u. and_then (do_log INFO ''Total Duration: {duration}'')
    (\<lambda>u. and_then (do_log INFO ''Dashboard: https://theemeraldnetwork.github.io/Kalimera/'')
    (\<lambda>u. and_then (do_log INFO ''Email Report: Disabled as requested'')
    (\<lambda>u. and_then (do_log INFO rule_line)
    (\<lambda>u. returns True))))))"

definition main_step6 :: "world \<Rightarrow> (exn + bool) \<times> world" where
  "main_step6 =
     and_then (do_log INFO ''Cleaning up old log files...'')
    (\<lambda>u. and_then cleanup_old_logs
    (\<lambda>u. and_then (do_log INFO ''Log cleanup completed'')
    (\<lambda>u. main_summary)))"

text \<open>The \<open>try\<close> block of step 5, and the step with its handler.\<close>

definition main_email_body :: "world \<Rightarrow> (exn + unit) \<times> world" where
  "main_email_body =
     and_then (import_stmt ''utils.email.report_sender'')
    (\<lambda>u. and_then (import_stmt ''pandas'')
    (\<lambda>u w. if dir_lookup (results_dir (fs w)) ''sentiment_summary_latest.csv'' \<noteq> None then
         and_then (pd_read_csv ''results/sentiment_summary_latest.csv'')
        (\<lambda>df. and_then (do_log INFO ''Loaded sentiment data for {len(df)} stocks'')
        (\<lambda>u. and_then new_sender
        (\<lambda>u. and_then (sender_send_email df False)
        (\<lambda>success. if success then do_log INFO ''Email report sent successfully''
                    else do_log ERROR ''Email report failed to send'')))) w
       else do_log ERROR ''No sentiment data file found for email'' w))"

definition main_step5 :: "world \<Rightarrow> (exn + bool) \<times> world" where
  "main_step5 =
     and_then (do_log INFO ''Sending email report...'')
    (\<lambda>u. and_then
       (except_Exception main_email_body
          (\<lambda>e. and_then (do_log ERROR ''Email error: {e}'')
          (\<lambda>u. do_log ERROR ''Email traceback: {traceback.format_exc()}'')))
    (\<lambda>u. main_step6))"

definition main_step3 :: "world \<Rightarrow> (exn + bool) \<times> world" where
  "main_step3 =
     and_then (do_log INFO ''Syncing dashboard to GitHub Pages...'')
    (\<lambda>u. and_then
       (run_command_with_logging [''git'', ''add'', ''index.html''] ''git add index.html'' 2)
    (\<lambda>added. if \<not> added then
         and_then (do_log ERROR ''Git add index.html failed!'') (\<lambda>u. returns False)
       else
         and_then (\<lambda>w. run_command_with_logging
                          [''git'', ''commit'', ''-m'', ''Daily dashboard update - '' @ timestamp w]
                          ''git commit'' 2 w)
        (\<lambda>committed. and_then
           (if \<not> committed
            then do_log WARNING ''Git commit failed - possibly no changes to dashboard''
            else returns ())
        (\<lambda>u. and_then
           (run_command_with_logging [''git'', ''push'', ''origin'', ''gh-pages''] ''git push'' 1)
        (\<lambda>pushed. and_then
           (if \<not> pushed
            then do_log WARNING ''Git push failed - dashboard may not be updated on GitHub''
            else and_then (do_log INFO ''Successfully synced latest dashboard to GitHub'')
                 (\<lambda>u. do_log INFO
                    ''Dashboard available at: https://theemeraldnetwork.github.io/Kalimera/''))
        (\<lambda>u. main_step5))))))"

definition main_step2 :: "string \<Rightarrow> world \<Rightarrow> (exn + bool) \<times> world" where
  "main_step2 python_path =
     and_then (do_log INFO ''Generating dashboard...'')
    (\<lambda>u. and_then
       (run_command_with_logging [python_path, ''viz_dashboard_generator.py'']
          ''dashboard generation'' 3)
    (\<lambda>generated. if \<not> generated then
         and_then (do_log ERROR ''Dashboard generation failed!'') (\<lambda>u. returns False)
       else
         and_then (do_log INFO ''Dashboard generation completed successfully'')
        (\<lambda>u. main_step3)))"

definition main_step1 :: "string \<Rightarrow> world \<Rightarrow> (exn + bool) \<times> world" where
  "main_step1 python_path =
     and_then (do_log INFO ''Starting sentiment analysis...'')
    (\<lambda>u. and_then
       (run_command_with_logging [python_path, ''sent_collect_data.py'']
          ''sentiment analysis'' 3)
    (\<lambda>collected. if \<not> collected then
         and_then (do_log ERROR ''Sentiment analysis failed!'') (\<lambda>u. returns False)
       else
         and_then (do_log INFO ''Sentiment analysis completed successfully'')
        (\<lambda>u. main_step2 python_path)))"

text \<open>
  \<open>python_path\<close>: the interpreter of the virtual environment when there is one
  (\<open>str(venv_python.absolute())\<close>, the working directory joined with the relative
  path), \<open>sys.executable\<close> otherwise.
\<close>

definition absolute :: "string \<Rightarrow> string \<Rightarrow> string" where
  "absolute wd path =
     (if wd \<noteq> [] \<and> last wd = CHR ''/'' then wd @ path else wd @ ''/'' @ path)"

definition find_python :: "world \<Rightarrow> (exn + string) \<times> world" where
  "find_python w =
     (if venv_python_exists (fs w)
      then and_then getcwd (\<lambda>wd. returns (absolute wd ''venv/bin/python'')) w
      else returns (sys_executable w) w)"

definition main_banner :: "world \<Rightarrow> (exn + unit) \<times> world" where
  "main_banner =
     and_then (do_log INFO rule_line)
    (\<lambda>u. and_then (do_log INFO ''TIGRO DAILY AUTOMATION STARTED'')
    (\<lambda>u. and_then (do_log INFO ''Date: {start_time}'')
    (\<lambda>u. and_then getcwd
    (\<lambda>wd. and_then (do_log INFO ''Project Root: {os.getcwd()}'')
    (\<lambda>u. and_then (do_log INFO ''Python Executable: {sys.executable}'')
    (\<lambda>u. and_then (do_log INFO ''Python Virtual Environment: {VIRTUAL_ENV}'')
    (\<lambda>u. do_log INFO rule_line)))))))"

definition main_prerequisites :: "world \<Rightarrow> (exn + bool) \<times> world" where
  "main_prerequisites =
     and_then (do_log INFO ''Checking prerequisites...'')
    (\<lambda>u. and_then find_python
    (\<lambda>python_path. and_then (do_log INFO ''Python executable: {python_path}'')
    (\<lambda>u w. if \<not> sentiment_script_exists (fs w) then
         and_then (do_log ERROR ''Missing sentiment script: {sentiment_script}'')
           (\<lambda>u. returns False) w
       else if \<not> dashboard_script_exists (fs w) then
         and_then (do_log ERROR ''Missing dashboard script: {dashboard_script}'')
           (\<lambda>u. returns False) w
       else
         and_then (do_log INFO ''All prerequisites checked successfully'')
           (\<lambda>u. main_step1 python_path) w)))"

text \<open>
  \<open>main\<close> first calls \<open>setup_logging\<close>, outside every \<open>try\<close>, and works with the
  logger it returns.
\<close>

definition main :: "world \<Rightarrow> (exn + bool) \<times> world" where
  "main w =
     and_then setup_logging (\<lambda>logger. and_then main_banner (\<lambda>u. main_prerequisites))
       (emit (Call ''main'') w)"

section \<open>Worlds after a command, and sample worlds\<close>

text \<open>
  \<open>new_events w w'\<close> are the events added to the trace between \<open>w\<close> and a later \<open>w'\<close>.
\<close>

definition new_events :: "world \<Rightarrow> world \<Rightarrow> event list" where
  "new_events w w' = drop (length (trace w)) (trace w')"

fun is_Run :: "event \<Rightarrow> bool" where
  "is_Run (Run c d env) = True"
| "is_Run e = False"

fun is_Log :: "event \<Rightarrow> bool" where
  "is_Log (Log l m) = True"
| "is_Log e = False"

text \<open>
  The environment the runner gives its child when the working directory is there, the
  world after a process has been started, and the world after one whole call of the
  runner that found its working directory.
\<close>

definition child_env :: "world \<Rightarrow> environment" where
  "child_env w = AList.update ''PYTHONPATH'' (cwd w) (environ w)"

definition run_world :: "string list \<Rightarrow> string \<Rightarrow> environment \<Rightarrow> world \<Rightarrow> world" where
  "run_world command dir env w =
     (emit (Run command dir env) w)
       \<lparr>fs := effect (procs w (ncalls w) command) (fs w), ncalls := Suc (ncalls w)\<rparr>"

definition rcl_after :: "string list \<Rightarrow> world \<Rightarrow> world" where
  "rcl_after c w =
     (let w1 = run_world c (cwd w) (child_env w)
                 (log INFO ''Attempt {attempt}/{max_retries}: {command}''
                    (emit (Call ''run_command_with_logging'') w))
      in case status (procs w (ncalls w) c) of
           Exit rc \<Rightarrow>
             if rc = 0 then w1
             else log ERROR ''Command failed with exit code {e.returncode}'' w1
         | Fault s \<Rightarrow> log ERROR ''Unexpected error in {description}: {e}'' w1)"

definition sample_fs :: filesystem where
  "sample_fs =
     \<lparr>docs_dir = IsDir [(''old_page.html'', File ''stale'' 100)],
      results_dir = IsDir
        [(''sentiment_report_latest.html'', File ''report'' 200),
         (''articles_AAPL_latest.html'', File ''apple'' 201),
         (''sentiment_summary_latest.csv'', File ''ticker,average_sentiment'' 202)],
      logs_dir = IsDir [(''tigro_master_detailed.log'', File ''lines'' 5000000)],
      venv_python_exists = False,
      sentiment_script_exists = True,
      dashboard_script_exists = True,
      cwd_exists = True\<rparr>"

definition sample_world :: world where
  "sample_world =
     \<lparr>environ = [(''PATH'', ''/usr/bin''), (''PYTHONPATH'', ''/opt/lib'')],
      cwd = ''/home/user/Kalimera'',
      sys_executable = ''/usr/bin/python3'',
      timestamp = ''2025-01-01 06:00:00'',
      now = 5000000,
      fs = sample_fs,
      procs = (\<lambda>n command. \<lparr>status = Exit 0, effect = (\<lambda>f. f)\<rparr>),
      ncalls = 0,
      import_module = (\<lambda>name. None),
      read_csv = (\<lambda>path. Inr [[''AAPL'', ''0.15'', ''25'']]),
      sender_init = None,
      send_email = (\<lambda>df test_mode. Inr True),
      trace = []\<rparr>"

text \<open>A command that fails the first time it is started and would succeed the second.\<close>

definition flaky_world :: world where
  "flaky_world =
     sample_world\<lparr>procs := (\<lambda>n command.
        \<lparr>status = (if n = 0 then Exit 1 else Exit 0), effect = (\<lambda>f. f)\<rparr>)\<rparr>"

text \<open>A command whose executable is missing.\<close>

definition faulty_world :: world where
  "faulty_world =
     sample_world\<lparr>procs := (\<lambda>n command.
        \<lparr>status = Fault ''FileNotFoundError'', effect = (\<lambda>f. f)\<rparr>)\<rparr>"

text \<open>A process whose working directory has been removed.\<close>

definition removed_cwd_world :: world where
  "removed_cwd_world =
     sample_world\<lparr>fs := sample_fs
       \<lparr>sentiment_script_exists := False, dashboard_script_exists := False,
        cwd_exists := False\<rparr>\<rparr>"

section \<open>Vocabulary for the properties of \<open>main\<close>\<close>

text \<open>
  The conditions under which \<open>main\<close> goes on: the two scripts are there, and the
  process started for a step exits with status zero. The collection is the first process
  \<open>main\<close> starts, the generation the second, \<open>git add\<close> the third, \<open>git commit\<close>
  the fourth and \<open>git push\<close> the fifth (the runner starts one process for each call).
  \<open>python_path_of\<close> is the interpreter \<open>main\<close> finds when \<open>os.getcwd()\<close> answers.

  \<open>logging_ok\<close>: \<open>setup_logging\<close> can do its work, that is, \<open>logs\<close> is not a regular
  file and \<open>logs/tigro_master_detailed.log\<close> is not a directory. \<open>keeps_cwd\<close>: no
  process removes the working directory.
\<close>

definition python_path_of :: "world \<Rightarrow> string" where
  "python_path_of w =
     (if venv_python_exists (fs w) then absolute (cwd w) ''venv/bin/python''
      else sys_executable w)"

fun is_subdir :: "entry option \<Rightarrow> bool" where
  "is_subdir (Some (Subdir t)) = True"
| "is_subdir e = False"

definition logging_ok :: "world \<Rightarrow> bool" where
  "logging_ok w \<longleftrightarrow>
     logs_dir (fs w) \<noteq> NotDir \<and>
     \<not> is_subdir (dir_lookup (logs_dir (fs w)) ''tigro_master_detailed.log'')"

definition keeps_cwd :: "(nat \<Rightarrow> string list \<Rightarrow> proc_result) \<Rightarrow> bool" where
  "keeps_cwd p \<longleftrightarrow> (\<forall>n command f. cwd_exists f \<longrightarrow> cwd_exists (effect (p n command) f))"

definition prerequisites_ok :: "world \<Rightarrow> bool" where
  "prerequisites_ok w \<longleftrightarrow> sentiment_script_exists (fs w) \<and> dashboard_script_exists (fs w)"

definition collect_ok :: "world \<Rightarrow> bool" where
  "collect_ok w \<longleftrightarrow>
     status (procs w (ncalls w) [python_path_of w, ''sent_collect_data.py'']) = Exit 0"

definition generate_ok :: "world \<Rightarrow> bool" where
  "generate_ok w \<longleftrightarrow>
     status (procs w (ncalls w + 1) [python_path_of w, ''viz_dashboard_generator.py'']) = Exit 0"

definition add_ok :: "world \<Rightarrow> bool" where
  "add_ok w \<longleftrightarrow> status (procs w (ncalls w + 2) [''git'', ''add'', ''index.html'']) = Exit 0"


definition push_ok :: "world \<Rightarrow> bool" where
  "push_ok w \<longleftrightarrow>
     status (procs w (ncalls w + 4) [''git'', ''push'', ''origin'', ''gh-pages'']) = Exit 0"

text \<open>
  \<open>extends P w w'\<close>: the trace of \<open>w'\<close> is the trace of \<open>w\<close> followed by events that all
  satisfy \<open>P\<close>; \<open>emits P f\<close>: in every world, \<open>f\<close> only adds such events.
\<close>

definition extends :: "(event \<Rightarrow> bool) \<Rightarrow> world \<Rightarrow> world \<Rightarrow> bool" where
  "extends P w w' \<longleftrightarrow> (\<exists>evs. trace w' = trace w @ evs \<and> list_all P evs)"

definition emits :: "(event \<Rightarrow> bool) \<Rightarrow> (world \<Rightarrow> 'a \<times> world) \<Rightarrow> bool" where
  "emits P f \<longleftrightarrow> (\<forall>w. extends P w (snd (f w)))"

text \<open>
  The commands \<open>main\<close> passes to the runner (with any interpreter path and any commit
  message), and the events \<open>main\<close> can add to the trace.
\<close>

fun main_command :: "string list \<Rightarrow> bool" where
  "main_command [a, b] = (b = ''sent_collect_data.py'' \<or> b = ''viz_dashboard_generator.py'')"
| "main_command [a, b, c] = (a = ''git'' \<and> b = ''add'' \<and> c = ''index.html'')"
| "main_command [a, b, c, d] =
     (a = ''git'' \<and> (b = ''commit'' \<and> c = ''-m'' \<or> b = ''push'' \<and> c = ''origin'' \<and> d = ''gh-pages''))"
| "main_command command = False"

fun main_event :: "event \<Rightarrow> bool" where
  "main_event (Call f) =
     (f = ''main'' \<or> f = ''setup_logging'' \<or> f = ''run_command_with_logging'' \<or>
      f = ''cleanup_old_logs'')"
| "main_event (Log l m) = True"
| "main_event (Run c d env) = main_command c"
| "main_event (Sleep n) = True"
| "main_event (Rmtree p) = False"
| "main_event (Mkdir p) = (p = ''logs'')"
| "main_event (Copy2 s t) = False"
| "main_event (Unlink p) = (take 5 p = ''logs/'')"
| "main_event (OpenAppend p) = (p = ''logs/tigro_master_detailed.log'')"
| "main_event (Import n) = (n = ''utils.email.report_sender'' \<or> n = ''pandas'')"
| "main_event (ReadCsv p) = (p = ''results/sentiment_summary_latest.csv'')"
| "main_event (SendEmail df test_mode) = (\<not> test_mode)"

text \<open>
  Sample worlds in which \<open>git add\<close> fails, in which \<open>git push\<close> fails, and in which
  the collection script is missing; and the events that end a completed run.
\<close>

definition add_fails_world :: world where
  "add_fails_world =
     sample_world\<lparr>procs := (\<lambda>n command.
        \<lparr>status = (if command = [''git'', ''add'', ''index.html''] then Exit 128 else Exit 0),
         effect = (\<lambda>f. f)\<rparr>)\<rparr>"

definition push_fails_world :: world where
  "push_fails_world =
     sample_world\<lparr>procs := (\<lambda>n command.
        \<lparr>status = (if command = [''git'', ''push'', ''origin'', ''gh-pages''] then Exit 1 else Exit 0),
         effect = (\<lambda>f. f)\<rparr>)\<rparr>"

definition no_script_world :: world where
  "no_script_world = sample_world\<lparr>fs := sample_fs\<lparr>sentiment_script_exists := False\<rparr>\<rparr>"

text \<open>The same, with a regular file where the directory \<open>logs\<close> should be.\<close>

definition no_logs_world :: world where
  "no_logs_world =
     sample_world\<lparr>fs := sample_fs\<lparr>sentiment_script_exists := False, logs_dir := NotDir\<rparr>\<rparr>"

text \<open>
  What \<open>main\<close> can add to the trace before its first step: its own entry, the work of
  \<open>setup_logging\<close>, and log records.
\<close>

fun prelude_event :: "event \<Rightarrow> bool" where
  "prelude_event (Call f) = (f = ''main'' \<or> f = ''setup_logging'')"
| "prelude_event (Log l m) = True"
| "prelude_event (Mkdir p) = (p = ''logs'')"
| "prelude_event (OpenAppend p) = (p = ''logs/tigro_master_detailed.log'')"
| "prelude_event e = False"


text \<open>
  The world in which \<open>main\<close> has its logger, and the one in which it has passed its
  prerequisite check.
\<close>

definition logging_world :: "world \<Rightarrow> world" where
  "logging_world w = snd (setup_logging (emit (Call ''main'') w))"

definition checked_world :: "world \<Rightarrow> world" where
  "checked_world w =
     log INFO ''All prerequisites checked successfully''
    (log INFO ''Python executable: {python_path}''
    (log INFO ''Checking prerequisites...''
    (log INFO rule_line
    (log INFO ''Python Virtual Environment: {VIRTUAL_ENV}''
    (log INFO ''Python Executable: {sys.executable}''
    (log INFO ''Project Root: {os.getcwd()}''
    (log INFO ''Date: {start_time}''
    (log INFO ''TIGRO DAILY AUTOMATION STARTED''
    (log INFO rule_line (logging_world w))))))))))"











text \<open>
  For the publisher: \<open>same_but_docs f g\<close> says that \<open>g\<close> differs from \<open>f\<close> in
  \<open>docs\<close> at most, and that \<open>docs\<close> is still a directory if it was one;
  \<open>docs_step f\<close> says that \<open>f\<close> changes the file system in that way only, and that its
  result and the file system it leaves depend on nothing but the file system it finds.
\<close>

fun is_dir :: "dirstate \<Rightarrow> bool" where
  "is_dir (IsDir es) = True"
| "is_dir d = False"

definition same_but_docs :: "filesystem \<Rightarrow> filesystem \<Rightarrow> bool" where
  "same_but_docs f g \<longleftrightarrow>
     results_dir g = results_dir f \<and> logs_dir g = logs_dir f \<and>
     venv_python_exists g = venv_python_exists f \<and>
     sentiment_script_exists g = sentiment_script_exists f \<and>
     dashboard_script_exists g = dashboard_script_exists f \<and>
     cwd_exists g = cwd_exists f \<and>
     (is_dir (docs_dir f) \<longrightarrow> is_dir (docs_dir g))"

definition docs_step :: "(world \<Rightarrow> 'a \<times> world) \<Rightarrow> bool" where
  "docs_step f \<longleftrightarrow>
     (\<forall>w. same_but_docs (fs w) (fs (snd (f w))) \<and>
          (\<forall>w2. fs w2 = fs w \<longrightarrow>
             fst (f w2) = fst (f w) \<and> fs (snd (f w2)) = fs (snd (f w))))"

text \<open>
  \<open>fresh_docs k r w\<close>: \<open>docs\<close> is a directory, and each of its entries is what a
  \<open>copy2\<close> recorded after the first \<open>k\<close> events of the trace took from the entry of
  \<open>results\<close> (whose state is \<open>r\<close>) it names. \<open>keeps I f\<close>: \<open>f\<close> preserves \<open>I\<close>.
  \<open>copy_event\<close>: a log record or a copy.
\<close>

definition fresh_docs :: "nat \<Rightarrow> dirstate \<Rightarrow> world \<Rightarrow> bool" where
  "fresh_docs k r w \<longleftrightarrow>
     k \<le> length (trace w) \<and> results_dir (fs w) = r \<and>
     (\<exists>es. docs_dir (fs w) = IsDir es \<and>
        (\<forall>n e. map_of es n = Some e \<longrightarrow>
           (\<exists>src. Copy2 (''results/'' @ src) (''docs/'' @ n) \<in> set (drop k (trace w)) \<and>
                  dir_lookup r src = Some e)))"

definition keeps :: "(world \<Rightarrow> bool) \<Rightarrow> (world \<Rightarrow> 'a \<times> world) \<Rightarrow> bool" where
  "keeps I f \<longleftrightarrow> (\<forall>w. I w \<longrightarrow> I (snd (f w)))"

fun copy_event :: "event \<Rightarrow> bool" where
  "copy_event (Log l m) = True"
| "copy_event (Copy2 s t) = True"
| "copy_event e = False"

text \<open>
  For the housekeeping: \<open>sweep_entries t names es\<close> is what the loop of
  \<open>cleanup_old_logs\<close> leaves of the entries \<open>es\<close> of \<open>logs\<close> when it goes through
  \<open>names\<close> with the bound \<open>t\<close> (a file below the bound is removed; at a name that is no
  longer there, or at a directory below the bound, the loop ends);
  \<open>retention_bound\<close> is \<open>thirty_days_ago\<close>.
\<close>

fun sweep_entries :: "real \<Rightarrow> string list \<Rightarrow> entries \<Rightarrow> entries" where
  "sweep_entries t [] es = es"
| "sweep_entries t (n # ns) es =
     (case map_of es n of
        None \<Rightarrow> es
      | Some (Subdir tt) \<Rightarrow> if tt < t then es else sweep_entries t ns es
      | Some (File c tt) \<Rightarrow>
          if tt < t then sweep_entries t ns (AList.delete n es) else sweep_entries t ns es)"

definition retention_bound :: "world \<Rightarrow> real" where
  "retention_bound w = now w - 30 * 24 * 60 * 60"

text \<open>
  A \<open>logs\<close> directory with an old log, an old file that is not a log, a log whose
  modification time is the bound itself and a recent log; and one in which a
  directory named like a log comes before an old log.
\<close>

definition stale_logs_world :: world where
  "stale_logs_world =
     sample_world\<lparr>fs := sample_fs\<lparr>logs_dir := IsDir
        [(''old.log'', File ''a'' 0), (''notes.txt'', File ''b'' 0),
         (''edge.log'', File ''c'' 2408000), (''new.log'', File ''d'' 4999999)]\<rparr>\<rparr>"

definition archive_world :: world where
  "archive_world =
     sample_world\<lparr>fs := sample_fs\<lparr>logs_dir := IsDir
        [(''archive.log'', Subdir 0), (''app.log'', File ''x'' 0)]\<rparr>\<rparr>"

section \<open>Properties of the command runner\<close>

lemma emit_fields [simp]:
  "trace (emit e w) = trace w @ [e]"
  "environ (emit e w) = environ w" "cwd (emit e w) = cwd w"
  "sys_executable (emit e w) = sys_executable w" "timestamp (emit e w) = timestamp w"
  "now (emit e w) = now w" "fs (emit e w) = fs w" "procs (emit e w) = procs w"
  "ncalls (emit e w) = ncalls w" "import_module (emit e w) = import_module w"
  "read_csv (emit e w) = read_csv w" "sender_init (emit e w) = sender_init w"
  "send_email (emit e w) = send_email w"
  by (simp_all add: emit_def)

lemma log_fields [simp]:
  "trace (log l m w) = trace w @ [Log l m]"
  "environ (log l m w) = environ w" "cwd (log l m w) = cwd w"
  "sys_executable (log l m w) = sys_executable w" "timestamp (log l m w) = timestamp w"
  "now (log l m w) = now w" "fs (log l m w) = fs w" "procs (log l m w) = procs w"
  "ncalls (log l m w) = ncalls w" "import_module (log l m w) = import_module w"
  "read_csv (log l m w) = read_csv w" "sender_init (log l m w) = sender_init w"
  "send_email (log l m w) = send_email w"
  by (simp_all add: log_def)

lemma run_world_fields [simp]:
  "trace (run_world c d env w) = trace w @ [Run c d env]"
  "environ (run_world c d env w) = environ w" "cwd (run_world c d env w) = cwd w"
  "sys_executable (run_world c d env w) = sys_executable w"
  "timestamp (run_world c d env w) = timestamp w"
  "now (run_world c d env w) = now w"
  "fs (run_world c d env w) = effect (procs w (ncalls w) c) (fs w)"
  "procs (run_world c d env w) = procs w"
  "ncalls (run_world c d env w) = Suc (ncalls w)"
  "import_module (run_world c d env w) = import_module w"
  "read_csv (run_world c d env w) = read_csv w"
  "sender_init (run_world c d env w) = sender_init w"
  "send_email (run_world c d env w) = send_email w"
  by (simp_all add: run_world_def)

lemma subprocess_run_eq:
  "subprocess_run c d env w =
     ((case status (procs w (ncalls w) c) of
         Exit rc \<Rightarrow> if rc = 0 then Inr () else Inl (CalledProcessError rc None None)
       | Fault s \<Rightarrow> Inl (OtherException s)),
      run_world c d env w)"
  by (simp add: subprocess_run_def run_world_def Let_def split: outcome.splits)

lemma getcwd_there: "cwd_exists (fs w) \<Longrightarrow> getcwd w = (Inr (cwd w), w)"
  by (simp add: getcwd_def)

lemma getcwd_gone:
  "\<not> cwd_exists (fs w) \<Longrightarrow> getcwd w = (Inl (OtherException ''FileNotFoundError''), w)"
  by (simp add: getcwd_def)

text \<open>
  The inner handler returns \<open>False\<close> for every \<open>CalledProcessError\<close>, so no pass of the
  loop ever continues: the outer handler for \<open>CalledProcessError\<close>, with its sleep and its
  next attempt, is never reached.
\<close>

lemma attempt_body_eq:
  "attempt_body c d m env a w =
    (if cwd_exists (fs w) then
       (let w1 = run_world c (cwd w) env
                   (log INFO ''Attempt {attempt}/{max_retries}: {command}'' w)
        in case status (procs w (ncalls w) c) of
             Exit rc \<Rightarrow>
               if rc = 0 then (Inr (Return True), w1)
               else (Inr (Return False),
                     log ERROR ''Command failed with exit code {e.returncode}'' w1)
           | Fault s \<Rightarrow>
               (Inr (Return False), log ERROR ''Unexpected error in {description}: {e}'' w1))
     else (Inr (Return False),
           log ERROR ''Unexpected error in {description}: {e}''
             (log INFO ''Attempt {attempt}/{max_retries}: {command}'' w)))"
  by (simp add: attempt_body_def inner_try_def start_process_def getcwd_def subprocess_run_eq
        Let_def split: outcome.splits)

lemma attempt_body_returns: "\<exists>b w'. attempt_body c d m env a w = (Inr (Return b), w')"
  by (auto simp: attempt_body_eq Let_def split: outcome.splits)

lemma attempts_returns: "\<exists>b. fst (attempts c d m env as w) = Inr b"
proof (cases as)
  case Nil
  then show ?thesis by auto
next
  case (Cons a rest)
  obtain b w' where "attempt_body c d m env a w = (Inr (Return b), w')"
    using attempt_body_returns by blast
  with Cons show ?thesis by simp
qed

lemma attempts_Cons:
  "cwd_exists (fs w) \<Longrightarrow>
   attempts c d m env (a # rest) w =
     (Inr (status (procs w (ncalls w) c) = Exit 0),
      (let w1 = run_world c (cwd w) env
                  (log INFO ''Attempt {attempt}/{max_retries}: {command}'' w)
       in case status (procs w (ncalls w) c) of
            Exit rc \<Rightarrow>
              if rc = 0 then w1
              else log ERROR ''Command failed with exit code {e.returncode}'' w1
          | Fault s \<Rightarrow> log ERROR ''Unexpected error in {description}: {e}'' w1))"
  by (simp add: attempt_body_eq Let_def split: outcome.splits)

lemma rcl_pos:
  assumes "cwd_exists (fs w)" and "1 \<le> m"
  shows "run_command_with_logging c d m w =
           (Inr (status (procs w (ncalls w) c) = Exit 0), rcl_after c w)"
proof -
  from assms(2) have "[1..m] = 1 # [2..m]" by (simp add: upto_rec1)
  with assms(1) show ?thesis
    by (simp add: run_command_with_logging_def getcwd_def attempts_Cons rcl_after_def
          child_env_def del: attempts.simps)
qed

lemma rcl_nonpos:
  assumes "cwd_exists (fs w)" and "m < 1"
  shows "run_command_with_logging c d m w =
           (Inr False, emit (Call ''run_command_with_logging'') w)"
  using assms by (simp add: run_command_with_logging_def getcwd_def)

lemma rcl_gone:
  assumes "\<not> cwd_exists (fs w)"
  shows "run_command_with_logging c d m w =
           (Inl (OtherException ''FileNotFoundError''),
            emit (Call ''run_command_with_logging'') w)"
  using assms by (simp add: run_command_with_logging_def getcwd_def)

lemma rcl_after_fields [simp]:
  "environ (rcl_after c w) = environ w" "cwd (rcl_after c w) = cwd w"
  "sys_executable (rcl_after c w) = sys_executable w"
  "timestamp (rcl_after c w) = timestamp w"
  "now (rcl_after c w) = now w"
  "fs (rcl_after c w) = effect (procs w (ncalls w) c) (fs w)"
  "procs (rcl_after c w) = procs w"
  "ncalls (rcl_after c w) = Suc (ncalls w)"
  "import_module (rcl_after c w) = import_module w"
  "read_csv (rcl_after c w) = read_csv w" "sender_init (rcl_after c w) = sender_init w"
  "send_email (rcl_after c w) = send_email w"
  by (simp_all add: rcl_after_def Let_def split: outcome.splits)

lemma rcl_after_trace:
  "trace (rcl_after c w) =
     trace w @ [Call ''run_command_with_logging'',
                Log INFO ''Attempt {attempt}/{max_retries}: {command}'',
                Run c (cwd w) (child_env w)] @
       (case status (procs w (ncalls w) c) of
          Exit rc \<Rightarrow>
            if rc = 0 then []
            else [Log ERROR ''Command failed with exit code {e.returncode}'']
        | Fault s \<Rightarrow> [Log ERROR ''Unexpected error in {description}: {e}''])"
  by (simp add: rcl_after_def Let_def split: outcome.splits)

lemma sample_world_fields [simp]:
  "environ sample_world = [(''PATH'', ''/usr/bin''), (''PYTHONPATH'', ''/opt/lib'')]"
  "cwd sample_world = ''/home/user/Kalimera''"
  "sys_executable sample_world = ''/usr/bin/python3''"
  "timestamp sample_world = ''2025-01-01 06:00:00''"
  "now sample_world = 5000000"
  "fs sample_world = sample_fs"
  "ncalls sample_world = 0"
  "import_module sample_world = (\<lambda>name. None)"
  "read_csv sample_world = (\<lambda>path. Inr [[''AAPL'', ''0.15'', ''25'']])"
  "sender_init sample_world = None"
  "send_email sample_world = (\<lambda>df test_mode. Inr True)"
  "trace sample_world = []"
  "procs sample_world = (\<lambda>n command. \<lparr>status = Exit 0, effect = (\<lambda>f. f)\<rparr>)"
  by (simp_all add: sample_world_def)

lemma sample_fs_cwd [simp]: "cwd_exists sample_fs"
  by (simp add: sample_fs_def)

text \<open>
  Claim C1 (the runner starts the command at most \<open>k\<close> times, returns true on the first
  start that exits with status zero, and returns false only after all \<open>k\<close> starts have
  failed, sleeping 5 seconds between failed attempts), evaluated where the code departs
  from it: with three attempts allowed and a command that exits with status 1 the first
  time and would exit with status 0 the second time, the runner returns \<open>False\<close> after a
  single start and without sleeping.
\<close>

theorem runner_gives_up_after_first_failure:
  "fst (run_command_with_logging [''git'', ''push'', ''origin'', ''gh-pages''] ''git push'' 3
          flaky_world) = Inr False \<and>
   ncalls (snd (run_command_with_logging [''git'', ''push'', ''origin'', ''gh-pages'']
          ''git push'' 3 flaky_world)) = 1 \<and>
   status (procs flaky_world 1 [''git'', ''push'', ''origin'', ''gh-pages'']) = Exit 0 \<and>
   Sleep 5 \<notin> set (trace (snd (run_command_with_logging
          [''git'', ''push'', ''origin'', ''gh-pages''] ''git push'' 3 flaky_world)))"
  by (simp add: rcl_pos rcl_after_trace flaky_world_def)

text \<open>
  Claim C3 says that the runner never lets an exception reach its caller. It does when
  the working directory has been removed: \<open>Path.cwd()\<close> in the first lines of the
  function, before the loop and outside both \<open>try\<close> statements, raises
  \<open>FileNotFoundError\<close>, and the runner raises it to its caller without having started
  anything.
\<close>

theorem runner_raises_without_cwd:
  "fst (run_command_with_logging [''git'', ''add'', ''index.html''] ''git add index.html'' 2
          removed_cwd_world) = Inl (OtherException ''FileNotFoundError'') \<and>
   ncalls (snd (run_command_with_logging [''git'', ''add'', ''index.html'']
          ''git add index.html'' 2 removed_cwd_world)) = ncalls removed_cwd_world"
  by (simp add: rcl_gone removed_cwd_world_def sample_fs_def)

text \<open>
  Claim C3 as amended: the only exception the runner lets through is the
  \<open>FileNotFoundError\<close> of its set-up, raised before the loop when the working directory
  has been removed; then nothing is started. When the working directory is there the
  runner returns a truth value, which is true exactly when at least one attempt is allowed
  and the first start of the command exits with status zero. The loop itself never raises,
  whatever the command, the attempts and the state it runs in: an exception raised while
  the command is started is turned into \<open>False\<close>, and after one that is not a process
  failure no further attempt is made (at most one process has been started, and the
  runner has not slept).
\<close>

theorem runner_raises_only_before_loop:
  "fst (run_command_with_logging c d m w) =
     (if cwd_exists (fs w) then Inr (1 \<le> m \<and> status (procs w (ncalls w) c) = Exit 0)
      else Inl (OtherException ''FileNotFoundError'')) \<and>
   (\<not> cwd_exists (fs w) \<longrightarrow>
      new_events w (snd (run_command_with_logging c d m w)) =
        [Call ''run_command_with_logging''] \<and>
      ncalls (snd (run_command_with_logging c d m w)) = ncalls w) \<and>
   (\<forall>env as w1. \<exists>b. fst (attempts c d m env as w1) = Inr b) \<and>
   (\<forall>e dir env. cwd_exists (fs w) \<and> fst (subprocess_run c dir env w) = Inl e \<longrightarrow>
      fst (run_command_with_logging c d m w) = Inr False) \<and>
   (\<forall>s. status (procs w (ncalls w) c) = Fault s \<longrightarrow>
      ncalls (snd (run_command_with_logging c d m w)) \<le> Suc (ncalls w) \<and>
      Sleep 5 \<notin> set (new_events w (snd (run_command_with_logging c d m w))))"
proof (cases "cwd_exists (fs w)")
  case False
  then show ?thesis
    using attempts_returns by (auto simp: rcl_gone new_events_def)
next
  case there: True
  show ?thesis
  proof (cases "1 \<le> m")
    case True
    with there show ?thesis
      using attempts_returns
      by (auto simp: rcl_pos rcl_after_trace subprocess_run_eq new_events_def
               split: outcome.splits if_splits)
  next
    case False
    then have "m < 1" by simp
    with there show ?thesis
      using attempts_returns by (auto simp: rcl_nonpos new_events_def)
  qed
qed

theorem runner_raises_only_before_loop_witness:
  "fst (subprocess_run [''no-such-program''] (cwd faulty_world) (child_env faulty_world)
          faulty_world) = Inl (OtherException ''FileNotFoundError'') \<and>
   fst (run_command_with_logging [''no-such-program''] ''missing program'' 3 faulty_world)
     = Inr False \<and>
   ncalls (snd (run_command_with_logging [''no-such-program''] ''missing program'' 3
          faulty_world)) \<le> Suc (ncalls faulty_world) \<and>
   new_events removed_cwd_world
     (snd (run_command_with_logging [''no-such-program''] ''missing program'' 3
          removed_cwd_world)) = [Call ''run_command_with_logging'']"
  using runner_raises_only_before_loop
          [of "[''no-such-program'']" "''missing program''" 3 faulty_world]
        runner_raises_only_before_loop
          [of "[''no-such-program'']" "''missing program''" 3 removed_cwd_world]
  by (simp add: subprocess_run_eq faulty_world_def removed_cwd_world_def sample_fs_def)

text \<open>
  Claim C9 (the child's environment is the parent's, extended so that \<open>PYTHONPATH\<close>
  includes the project root), evaluated where the code departs from it. The one process
  a call starts gets the working directory and the environment \<open>child_env\<close>, which is
  the parent's with \<open>PYTHONPATH\<close> set to the working directory and nothing else:
  the assignment \<open>env['PYTHONPATH'] = str(Path.cwd())\<close> (its comment: "Add current
  directory to PYTHONPATH") replaces what the parent had there. With \<open>/opt/lib\<close> on the
  parent's \<open>PYTHONPATH\<close>, the child's is the working directory alone.
\<close>

theorem runner_replaces_python_path:
  "filter is_Run (new_events w (snd (run_command_with_logging c d m w))) =
     (if cwd_exists (fs w) \<and> 1 \<le> m then [Run c (cwd w) (child_env w)] else []) \<and>
   map_of (child_env w) = (map_of (environ w))(''PYTHONPATH'' \<mapsto> cwd w) \<and>
   map_of (environ sample_world) ''PYTHONPATH'' = Some ''/opt/lib'' \<and>
   filter is_Run (new_events sample_world
      (snd (run_command_with_logging [''git'', ''add'', ''index.html''] ''git add index.html'' 2
              sample_world))) =
     [Run [''git'', ''add'', ''index.html''] ''/home/user/Kalimera''
        [(''PATH'', ''/usr/bin''), (''PYTHONPATH'', ''/home/user/Kalimera'')]]"
proof -
  have "filter is_Run (new_events w (snd (run_command_with_logging c d m w))) =
     (if cwd_exists (fs w) \<and> 1 \<le> m then [Run c (cwd w) (child_env w)] else [])" for w c d m
  proof (cases "cwd_exists (fs w)")
    case False
    then show ?thesis by (simp add: rcl_gone new_events_def)
  next
    case there: True
    show ?thesis
    proof (cases "1 \<le> m")
      case True
      with there show ?thesis
        by (simp add: rcl_pos rcl_after_trace new_events_def split: outcome.splits)
    next
      case False
      then have "m < 1" by simp
      with there show ?thesis by (simp add: rcl_nonpos new_events_def)
    qed
  qed
  then show ?thesis
    by (simp add: child_env_def update_conv')
qed

section \<open>Sequencing laws and the result of \<open>main\<close>\<close>

lemma and_then_do_log [simp]: "and_then (do_log l m) k w = k () (log l m w)"
  by (simp add: and_then_def do_log_def)

lemma and_then_returns [simp]: "and_then (returns a) k w = k a w"
  by (simp add: and_then_def returns_def)

lemma and_then_fst: "fst (m w) = Inr a \<Longrightarrow> and_then m k w = k a (snd (m w))"
  by (cases "m w") (simp add: and_then_def)

lemma and_then_getcwd:
  "and_then getcwd k w =
     (if cwd_exists (fs w) then k (cwd w) w else (Inl (OtherException ''FileNotFoundError''), w))"
  by (simp add: and_then_def getcwd_def)

lemma and_then_rcl:
  "1 \<le> m \<Longrightarrow> and_then (run_command_with_logging c d m) k w =
     (if cwd_exists (fs w) then k (status (procs w (ncalls w) c) = Exit 0) (rcl_after c w)
      else (Inl (OtherException ''FileNotFoundError''),
            emit (Call ''run_command_with_logging'') w))"
  by (simp add: and_then_def rcl_pos rcl_gone)

lemma and_then_rcl_fun:
  "1 \<le> m \<Longrightarrow> and_then (\<lambda>w. run_command_with_logging (c w) d m w) k w0 =
     (if cwd_exists (fs w0)
      then k (status (procs w0 (ncalls w0) (c w0)) = Exit 0) (rcl_after (c w0) w0)
      else (Inl (OtherException ''FileNotFoundError''),
            emit (Call ''run_command_with_logging'') w0))"
  by (simp add: and_then_def rcl_pos rcl_gone)

lemma keeps_cwdD: "keeps_cwd p \<Longrightarrow> cwd_exists f \<Longrightarrow> cwd_exists (effect (p n c) f)"
  unfolding keeps_cwd_def by blast

lemma and_then_if:
  "and_then (if b then f else g) k w = (if b then and_then f k w else and_then g k w)"
  by simp

lemma and_then_assoc:
  "and_then (and_then m f) g w = and_then m (\<lambda>a. and_then (f a) g) w"
  by (simp add: and_then_def split: prod.splits sum.splits)

lemma raises_Exception_stat: "stat dir n w = (Inl e, w') \<Longrightarrow> is_Exception e"
  by (auto simp: stat_def split: option.splits)

lemma raises_Exception_unlink_log: "unlink_log n w = (Inl e, w') \<Longrightarrow> is_Exception e"
  by (auto simp: unlink_log_def Let_def split: option.splits dirstate.splits entry.splits)

lemma raises_Exception_sweep_logs: "sweep_logs t ns w = (Inl e, w') \<Longrightarrow> is_Exception e"
proof (induction ns arbitrary: w)
  case Nil
  then show ?case by simp
next
  case (Cons n ns)
  then show ?case
    by (auto split: prod.splits sum.splits if_splits
             dest: raises_Exception_stat raises_Exception_unlink_log)
qed

lemma cleanup_old_logs_returns: "\<exists>w'. cleanup_old_logs w = (Inr (), w')"
proof -
  have "cleanup_old_logs_body w1 = (Inl e, w2) \<Longrightarrow> is_Exception e" for w1 w2 e
    by (auto simp: cleanup_old_logs_body_def Let_def split: if_splits
             dest: raises_Exception_sweep_logs)
  then show ?thesis
    by (auto simp: cleanup_old_logs_def except_Exception_def do_log_def
             split: prod.splits sum.splits)
qed

lemma main_summary_fst: "fst (main_summary w) = Inr True"
  by (simp add: main_summary_def returns_def)

lemma main_step6_fst: "fst (main_step6 w) = Inr True"
proof -
  obtain w' where "cleanup_old_logs (log INFO ''Cleaning up old log files...'' w) = (Inr (), w')"
    using cleanup_old_logs_returns by blast
  then show ?thesis
    by (simp add: main_step6_def and_then_def [of cleanup_old_logs] main_summary_fst)
qed

lemma main_email_returns:
  "\<exists>w'. except_Exception main_email_body
          (\<lambda>e. and_then (do_log ERROR ''Email error: {e}'')
          (\<lambda>u. do_log ERROR ''Email traceback: {traceback.format_exc()}'')) w = (Inr (), w')"
  by (auto simp: except_Exception_def main_email_body_def and_then_def import_stmt_def
        pd_read_csv_def new_sender_def sender_send_email_def do_log_def
        split: prod.splits sum.splits option.splits if_splits)

lemma main_step5_fst: "fst (main_step5 w) = Inr True"
proof -
  obtain w' where "except_Exception main_email_body
          (\<lambda>e. and_then (do_log ERROR ''Email error: {e}'')
          (\<lambda>u. do_log ERROR ''Email traceback: {traceback.format_exc()}''))
          (log INFO ''Sending email report...'' w) = (Inr (), w')"
    using main_email_returns by blast
  then show ?thesis
    by (simp add: main_step5_def and_then_def [of "except_Exception _ _"] main_step6_fst)
qed

text \<open>The steps from the staging on: the value when they return, and that they return.\<close>

lemma main_step3_ret:
  assumes "fst (main_step3 w) = Inr b"
  shows "b = (status (procs w (ncalls w) [''git'', ''add'', ''index.html'']) = Exit 0)"
  using assms
  by (simp add: main_step3_def and_then_rcl and_then_rcl_fun and_then_if and_then_assoc
        main_step5_fst returns_def split: if_splits)

lemma main_step3_fst:
  assumes "cwd_exists (fs w)" and "keeps_cwd (procs w)"
  shows "fst (main_step3 w) =
           Inr (status (procs w (ncalls w) [''git'', ''add'', ''index.html'']) = Exit 0)"
  using assms
  by (simp add: main_step3_def and_then_rcl and_then_rcl_fun and_then_if and_then_assoc
        main_step5_fst returns_def keeps_cwdD)

lemma main_step2_ret:
  assumes "fst (main_step2 py w) = Inr b"
  shows "b = (status (procs w (ncalls w) [py, ''viz_dashboard_generator.py'']) = Exit 0
     \<and> status (procs w (ncalls w + 1) [''git'', ''add'', ''index.html'']) = Exit 0)"
proof (cases "cwd_exists (fs w) \<and>
    status (procs w (ncalls w) [py, ''viz_dashboard_generator.py'']) = Exit 0")
  case True
  with assms have "fst (main_step3 (log INFO ''Dashboard generation completed successfully''
       (rcl_after [py, ''viz_dashboard_generator.py'']
          (log INFO ''Generating dashboard...'' w)))) = Inr b"
    by (simp add: main_step2_def and_then_rcl)
  from main_step3_ret [OF this] True show ?thesis by simp
next
  case False
  with assms show ?thesis
    by (auto simp: main_step2_def and_then_rcl returns_def split: if_splits)
qed

lemma main_step2_fst:
  assumes "cwd_exists (fs w)" and "keeps_cwd (procs w)"
  shows "fst (main_step2 py w) =
     Inr (status (procs w (ncalls w) [py, ''viz_dashboard_generator.py'']) = Exit 0
     \<and> status (procs w (ncalls w + 1) [''git'', ''add'', ''index.html'']) = Exit 0)"
  using assms
  by (simp add: main_step2_def and_then_rcl main_step3_fst returns_def keeps_cwdD)

lemma main_step1_ret:
  assumes "fst (main_step1 py w) = Inr b"
  shows "b = (status (procs w (ncalls w) [py, ''sent_collect_data.py'']) = Exit 0
     \<and> status (procs w (ncalls w + 1) [py, ''viz_dashboard_generator.py'']) = Exit 0
     \<and> status (procs w (ncalls w + 2) [''git'', ''add'', ''index.html'']) = Exit 0)"
proof (cases "cwd_exists (fs w) \<and>
    status (procs w (ncalls w) [py, ''sent_collect_data.py'']) = Exit 0")
  case True
  with assms have "fst (main_step2 py (log INFO ''Sentiment analysis completed successfully''
       (rcl_after [py, ''sent_collect_data.py'']
          (log INFO ''Starting sentiment analysis...'' w)))) = Inr b"
    by (simp add: main_step1_def and_then_rcl)
  from main_step2_ret [OF this] True show ?thesis by simp
next
  case False
  with assms show ?thesis
    by (auto simp: main_step1_def and_then_rcl returns_def split: if_splits)
qed

lemma main_step1_fst:
  assumes "cwd_exists (fs w)" and "keeps_cwd (procs w)"
  shows "fst (main_step1 py w) =
     Inr (status (procs w (ncalls w) [py, ''sent_collect_data.py'']) = Exit 0
     \<and> status (procs w (ncalls w + 1) [py, ''viz_dashboard_generator.py'']) = Exit 0
     \<and> status (procs w (ncalls w + 2) [''git'', ''add'', ''index.html'']) = Exit 0)"
  using assms
  by (simp add: main_step1_def and_then_rcl main_step2_fst returns_def keeps_cwdD)

text \<open>\<open>setup_logging\<close>: when it returns, what it leaves, and what it does not touch.\<close>

lemma setup_logging_fst:
  "fst (setup_logging w) =
     (if logs_dir (fs w) = NotDir then Inl (OtherException ''FileExistsError'')
      else if is_subdir (dir_lookup (logs_dir (fs w)) ''tigro_master_detailed.log'')
      then Inl (OtherException ''IsADirectoryError'')
      else Inr ())"
  by (simp add: setup_logging_def and_then_def mkdir_logs_def open_log_file_def Let_def
        dir_lookup_def split: dirstate.splits option.splits entry.splits)

lemma setup_logging_ok: "logging_ok w \<Longrightarrow> fst (setup_logging w) = Inr ()"
  by (simp add: setup_logging_fst logging_ok_def)

lemma setup_logging_fails: "\<not> logging_ok w \<Longrightarrow> \<exists>e. fst (setup_logging w) = Inl e"
  by (auto simp: setup_logging_fst logging_ok_def)

lemma setup_logging_fields [simp]:
  "environ (snd (setup_logging w)) = environ w" "cwd (snd (setup_logging w)) = cwd w"
  "sys_executable (snd (setup_logging w)) = sys_executable w"
  "timestamp (snd (setup_logging w)) = timestamp w"
  "now (snd (setup_logging w)) = now w"
  "procs (snd (setup_logging w)) = procs w"
  "ncalls (snd (setup_logging w)) = ncalls w"
  "import_module (snd (setup_logging w)) = import_module w"
  "read_csv (snd (setup_logging w)) = read_csv w"
  "sender_init (snd (setup_logging w)) = sender_init w"
  "send_email (snd (setup_logging w)) = send_email w"
  by (simp_all add: setup_logging_def and_then_def mkdir_logs_def open_log_file_def Let_def
        split: dirstate.splits option.splits entry.splits)

lemma setup_logging_fs [simp]:
  "docs_dir (fs (snd (setup_logging w))) = docs_dir (fs w)"
  "results_dir (fs (snd (setup_logging w))) = results_dir (fs w)"
  "venv_python_exists (fs (snd (setup_logging w))) = venv_python_exists (fs w)"
  "sentiment_script_exists (fs (snd (setup_logging w))) = sentiment_script_exists (fs w)"
  "dashboard_script_exists (fs (snd (setup_logging w))) = dashboard_script_exists (fs w)"
  "cwd_exists (fs (snd (setup_logging w))) = cwd_exists (fs w)"
  by (simp_all add: setup_logging_def and_then_def mkdir_logs_def open_log_file_def Let_def
        split: dirstate.splits option.splits entry.splits)

lemma setup_logging_trace:
  "logging_ok w \<Longrightarrow>
   trace (snd (setup_logging w)) =
     trace w @ [Call ''setup_logging'', Mkdir ''logs'',
                OpenAppend ''logs/tigro_master_detailed.log'']"
  by (simp add: setup_logging_def and_then_def mkdir_logs_def open_log_file_def Let_def
        logging_ok_def dir_lookup_def split: dirstate.splits option.splits entry.splits)

lemma logging_world_fields [simp]:
  "environ (logging_world w) = environ w" "cwd (logging_world w) = cwd w"
  "sys_executable (logging_world w) = sys_executable w"
  "timestamp (logging_world w) = timestamp w"
  "now (logging_world w) = now w"
  "procs (logging_world w) = procs w"
  "ncalls (logging_world w) = ncalls w"
  "import_module (logging_world w) = import_module w"
  "read_csv (logging_world w) = read_csv w"
  "sender_init (logging_world w) = sender_init w"
  "send_email (logging_world w) = send_email w"
  "docs_dir (fs (logging_world w)) = docs_dir (fs w)"
  "results_dir (fs (logging_world w)) = results_dir (fs w)"
  "venv_python_exists (fs (logging_world w)) = venv_python_exists (fs w)"
  "sentiment_script_exists (fs (logging_world w)) = sentiment_script_exists (fs w)"
  "dashboard_script_exists (fs (logging_world w)) = dashboard_script_exists (fs w)"
  "cwd_exists (fs (logging_world w)) = cwd_exists (fs w)"
  by (simp_all add: logging_world_def)

lemma checked_world_fields [simp]:
  "environ (checked_world w) = environ w" "cwd (checked_world w) = cwd w"
  "sys_executable (checked_world w) = sys_executable w"
  "timestamp (checked_world w) = timestamp w"
  "now (checked_world w) = now w"
  "fs (checked_world w) = fs (logging_world w)"
  "procs (checked_world w) = procs w" "ncalls (checked_world w) = ncalls w"
  by (simp_all add: checked_world_def)

text \<open>The four ways \<open>main\<close> can go before its first step.\<close>

lemma main_no_logging:
  assumes "\<not> logging_ok w"
  shows "\<exists>e. fst (main w) = Inl e" and "snd (main w) = logging_world w"
proof -
  from assms have "\<not> logging_ok (emit (Call ''main'') w)" by (simp add: logging_ok_def)
  from setup_logging_fails [OF this] obtain e where
    e: "fst (setup_logging (emit (Call ''main'') w)) = Inl e" by blast
  then have m: "main w = (Inl e, logging_world w)"
    by (cases "setup_logging (emit (Call ''main'') w)")
       (simp add: main_def and_then_def logging_world_def)
  from m show "\<exists>e. fst (main w) = Inl e" by simp
  from m show "snd (main w) = logging_world w" by simp
qed

lemma main_logging:
  assumes "logging_ok w"
  shows "main w = and_then main_banner (\<lambda>u. main_prerequisites) (logging_world w)"
proof -
  from assms have "logging_ok (emit (Call ''main'') w)" by (simp add: logging_ok_def)
  then have "fst (setup_logging (emit (Call ''main'') w)) = Inr ()"
    by (rule setup_logging_ok)
  then have "and_then setup_logging (\<lambda>logger. and_then main_banner (\<lambda>u. main_prerequisites))
               (emit (Call ''main'') w) =
             and_then main_banner (\<lambda>u. main_prerequisites)
               (snd (setup_logging (emit (Call ''main'') w)))"
    by (rule and_then_fst)
  then show ?thesis
    by (simp add: main_def logging_world_def)
qed

lemma main_no_cwd:
  assumes "logging_ok w" and "\<not> cwd_exists (fs w)"
  shows "main w =
     (Inl (OtherException ''FileNotFoundError''),
      log INFO ''Date: {start_time}''
        (log INFO ''TIGRO DAILY AUTOMATION STARTED'' (log INFO rule_line (logging_world w))))"
  using assms(2)
  by (simp add: main_logging [OF assms(1)] main_banner_def and_then_assoc and_then_getcwd)

lemma and_then_find_python:
  "and_then find_python k w =
     (if venv_python_exists (fs w) then
        (if cwd_exists (fs w) then k (absolute (cwd w) ''venv/bin/python'') w
         else (Inl (OtherException ''FileNotFoundError''), w))
      else k (sys_executable w) w)"
  by (simp add: find_python_def and_then_def getcwd_def returns_def)

lemma find_python_there:
  "cwd_exists (fs w) \<Longrightarrow> find_python w = (Inr (python_path_of w), w)"
  by (simp add: find_python_def python_path_of_def and_then_getcwd returns_def)

lemma main_checked:
  assumes "logging_ok w" and "cwd_exists (fs w)" and "prerequisites_ok w"
  shows "main w = main_step1 (python_path_of w) (checked_world w)"
proof -
  let ?w7 = "log INFO ''Checking prerequisites...''
    (log INFO rule_line
    (log INFO ''Python Virtual Environment: {VIRTUAL_ENV}''
    (log INFO ''Python Executable: {sys.executable}''
    (log INFO ''Project Root: {os.getcwd()}''
    (log INFO ''Date: {start_time}''
    (log INFO ''TIGRO DAILY AUTOMATION STARTED''
    (log INFO rule_line (logging_world w))))))))"
  from assms(2) have "cwd_exists (fs ?w7)" by simp
  from find_python_there [OF this]
  have fp: "and_then find_python k ?w7 = k (python_path_of w) ?w7" for k :: "string \<Rightarrow> world \<Rightarrow> (exn + bool) \<times> world"
    by (simp add: and_then_def python_path_of_def)
  show ?thesis
    using assms(2,3)
    by (simp add: main_logging [OF assms(1)] main_banner_def main_prerequisites_def
          and_then_assoc and_then_getcwd fp prerequisites_ok_def checked_world_def)
qed

lemma main_unchecked:
  assumes "logging_ok w" and "cwd_exists (fs w)" and "\<not> prerequisites_ok w"
  shows "main w =
    (Inr False,
     log ERROR (if \<not> sentiment_script_exists (fs w)
                then ''Missing sentiment script: {sentiment_script}''
                else ''Missing dashboard script: {dashboard_script}'')
    (log INFO ''Python executable: {python_path}''
    (log INFO ''Checking prerequisites...''
    (log INFO rule_line
    (log INFO ''Python Virtual Environment: {VIRTUAL_ENV}''
    (log INFO ''Python Executable: {sys.executable}''
    (log INFO ''Project Root: {os.getcwd()}''
    (log INFO ''Date: {start_time}''
    (log INFO ''TIGRO DAILY AUTOMATION STARTED''
    (log INFO rule_line (logging_world w)))))))))))"
proof -
  let ?w7 = "log INFO ''Checking prerequisites...''
    (log INFO rule_line
    (log INFO ''Python Virtual Environment: {VIRTUAL_ENV}''
    (log INFO ''Python Executable: {sys.executable}''
    (log INFO ''Project Root: {os.getcwd()}''
    (log INFO ''Date: {start_time}''
    (log INFO ''TIGRO DAILY AUTOMATION STARTED''
    (log INFO rule_line (logging_world w))))))))"
  from assms(2) have "cwd_exists (fs ?w7)" by simp
  from find_python_there [OF this]
  have fp: "and_then find_python k ?w7 = k (python_path_of w) ?w7" for k :: "string \<Rightarrow> world \<Rightarrow> (exn + bool) \<times> world"
    by (simp add: and_then_def python_path_of_def)
  show ?thesis
    using assms(2,3)
    by (auto simp: main_logging [OF assms(1)] main_banner_def main_prerequisites_def
          and_then_assoc and_then_getcwd fp prerequisites_ok_def returns_def)
qed

lemma main_ret:
  assumes "fst (main w) = Inr b"
  shows "b = (prerequisites_ok w \<and> collect_ok w \<and> generate_ok w \<and> add_ok w)"
proof -
  have l: "logging_ok w"
  proof (rule ccontr)
    assume "\<not> logging_ok w"
    from main_no_logging(1) [OF this] assms show False by auto
  qed
  have c: "cwd_exists (fs w)"
  proof (rule ccontr)
    assume "\<not> cwd_exists (fs w)"
    from main_no_cwd [OF l this] assms show False by simp
  qed
  show ?thesis
  proof (cases "prerequisites_ok w")
    case True
    from assms have "fst (main_step1 (python_path_of w) (checked_world w)) = Inr b"
      by (simp add: main_checked [OF l c True])
    from main_step1_ret [OF this] True show ?thesis
      by (simp add: collect_ok_def generate_ok_def add_ok_def)
  next
    case False
    from assms show ?thesis
      by (simp add: main_unchecked [OF l c False] False)
  qed
qed

lemma main_fst:
  assumes "logging_ok w" and "cwd_exists (fs w)" and "keeps_cwd (procs w)"
  shows "fst (main w) = Inr (prerequisites_ok w \<and> collect_ok w \<and> generate_ok w \<and> add_ok w)"
proof (cases "prerequisites_ok w")
  case True
  from assms(2,3) have "fst (main_step1 (python_path_of w) (checked_world w)) =
     Inr (collect_ok w \<and> generate_ok w \<and> add_ok w)"
    by (simp add: main_step1_fst collect_ok_def generate_ok_def add_ok_def)
  with True show ?thesis
    by (simp add: main_checked [OF assms(1,2) True])
next
  case False
  then show ?thesis
    by (simp add: main_unchecked [OF assms(1,2) False])
qed


section \<open>What a function adds to the trace\<close>

lemma extends_refl [simp]: "extends P w w"
  by (simp add: extends_def)

lemma extends_trans: "extends P w w1 \<Longrightarrow> extends P w1 w2 \<Longrightarrow> extends P w w2"
  by (auto simp: extends_def)

lemma extends_emit: "P e \<Longrightarrow> extends P w (emit e w)"
  by (simp add: extends_def)

lemma extends_log: "P (Log l m) \<Longrightarrow> extends P w (log l m w)"
  by (simp add: extends_def)

lemma extends_new_events:
  "extends P w w' \<Longrightarrow> trace w' = trace w @ new_events w w' \<and> list_all P (new_events w w')"
  by (auto simp: extends_def new_events_def)

lemma emitsD: "emits P f \<Longrightarrow> extends P w (snd (f w))"
  by (simp add: emits_def)

lemma emits_and_then:
  assumes "emits P m" and "\<And>a. emits P (k a)"
  shows "emits P (and_then m k)"
  unfolding emits_def
proof
  fix w
  show "extends P w (snd (and_then m k w))"
  proof (cases "m w")
    case (Pair r w1)
    with assms(1) have e1: "extends P w w1"
      by (metis emitsD snd_conv)
    show ?thesis
    proof (cases r)
      case (Inl e)
      with Pair e1 show ?thesis by (simp add: and_then_def)
    next
      case (Inr a)
      from assms(2) have "extends P w1 (snd (k a w1))" by (rule emitsD)
      with e1 Pair Inr show ?thesis
        by (auto simp: and_then_def intro: extends_trans)
    qed
  qed
qed

lemma emits_except_Exception:
  assumes "emits P body" and "\<And>e. emits P (handler e)"
  shows "emits P (except_Exception body handler)"
  unfolding emits_def
proof
  fix w
  show "extends P w (snd (except_Exception body handler w))"
  proof (cases "body w")
    case (Pair r w1)
    with assms(1) have e1: "extends P w w1"
      by (metis emitsD snd_conv)
    show ?thesis
    proof (cases r)
      case (Inr a)
      with Pair e1 show ?thesis by (simp add: except_Exception_def)
    next
      case (Inl e)
      from assms(2) have "extends P w1 (snd (handler e w1))" by (rule emitsD)
      with e1 Pair Inl show ?thesis
        by (auto simp: except_Exception_def intro: extends_trans)
    qed
  qed
qed

lemma emits_returns: "emits P (returns a)"
  by (simp add: emits_def returns_def)

lemma emits_do_log: "P (Log l m) \<Longrightarrow> emits P (do_log l m)"
  by (simp add: emits_def do_log_def extends_log)

lemma emits_if: "emits P f \<Longrightarrow> emits P g \<Longrightarrow> emits P (if b then f else g)"
  by simp

lemma emits_fun_if:
  "emits P f \<Longrightarrow> emits P g \<Longrightarrow> emits P (\<lambda>w. if b w then f w else g w)"
  by (simp add: emits_def)

lemma extends_log_left: "P (Log l m) \<Longrightarrow> extends P (log l m w) w' \<Longrightarrow> extends P w w'"
  by (metis extends_log extends_trans)

lemma emits_callI:
  assumes "P e" and "emits P f" and "\<And>w. g w = f (emit e w)"
  shows "emits P g"
  unfolding emits_def
proof
  fix w
  have "extends P w (emit e w)" using assms(1) by (rule extends_emit)
  moreover have "extends P (emit e w) (snd (f (emit e w)))" using assms(2) by (rule emitsD)
  ultimately show "extends P w (snd (g w))"
    unfolding assms(3) by (rule extends_trans)
qed

lemma emits_rcl_fun:
  assumes "P (Call ''run_command_with_logging'')" and "\<And>l m. P (Log l m)"
    and "\<And>w dir env. P (Run (c w) dir env)"
  shows "emits P (\<lambda>w. run_command_with_logging (c w) d m w)"
  unfolding emits_def
proof
  fix w
  show "extends P w (snd (run_command_with_logging (c w) d m w))"
  proof (cases "cwd_exists (fs w)")
    case False
    with assms show ?thesis
      by (simp add: rcl_gone extends_emit)
  next
    case there: True
    show ?thesis
    proof (cases "1 \<le> m")
      case True
      with there assms show ?thesis
        by (simp add: rcl_pos extends_def rcl_after_trace split: outcome.splits)
    next
      case False
      with there assms show ?thesis
        by (simp add: rcl_nonpos extends_emit)
    qed
  qed
qed

lemma emits_rcl:
  assumes "P (Call ''run_command_with_logging'')" and "\<And>l m. P (Log l m)"
    and "\<And>dir env. P (Run c dir env)"
  shows "emits P (run_command_with_logging c d m)"
  using emits_rcl_fun [of P "\<lambda>w. c" d m] assms by simp


lemma emits_getcwd: "emits P getcwd"
  by (simp add: emits_def getcwd_def)

lemma emits_find_python: "emits P find_python"
  by (simp add: emits_def find_python_def and_then_getcwd returns_def)

lemma emits_mkdir_logs: "P (Mkdir ''logs'') \<Longrightarrow> emits P mkdir_logs"
  by (auto simp: emits_def mkdir_logs_def Let_def extends_def split: dirstate.splits)

lemma emits_open_log_file:
  "P (OpenAppend (''logs/'' @ n)) \<Longrightarrow> emits P (open_log_file n)"
  by (auto simp: emits_def open_log_file_def Let_def extends_def
           split: dirstate.splits option.splits entry.splits)

lemma emits_setup_logging:
  assumes "P (Call ''setup_logging'')" and "P (Mkdir ''logs'')"
    and "P (OpenAppend ''logs/tigro_master_detailed.log'')"
  shows "emits P setup_logging"
proof -
  have "P (OpenAppend (''logs/'' @ ''tigro_master_detailed.log''))"
    using assms(3) by simp
  then have "emits P (open_log_file ''tigro_master_detailed.log'')"
    by (rule emits_open_log_file)
  then have body: "emits P (and_then mkdir_logs (\<lambda>u. open_log_file ''tigro_master_detailed.log''))"
    by (intro emits_and_then emits_mkdir_logs assms(2))
  show ?thesis
    by (rule emits_callI [OF assms(1) body]) (simp add: setup_logging_def)
qed

lemma emits_import_stmt: "P (Import n) \<Longrightarrow> emits P (import_stmt n)"
  by (simp add: emits_def import_stmt_def extends_emit split: option.splits)

lemma emits_pd_read_csv: "P (ReadCsv p) \<Longrightarrow> emits P (pd_read_csv p)"
  by (simp add: emits_def pd_read_csv_def extends_emit split: sum.splits)

lemma emits_new_sender: "emits P new_sender"
  by (simp add: emits_def new_sender_def split: option.splits)

lemma emits_sender_send_email: "P (SendEmail df t) \<Longrightarrow> emits P (sender_send_email df t)"
  by (simp add: emits_def sender_send_email_def extends_emit split: sum.splits)

lemma extends_fs_update: "extends P w (w'\<lparr>fs := f\<rparr>) = extends P w w'"
  by (simp add: extends_def)

lemma emits_unlink_log: "P (Unlink (''logs/'' @ n)) \<Longrightarrow> emits P (unlink_log n)"
  by (auto simp: emits_def unlink_log_def Let_def extends_fs_update extends_emit
           split: dirstate.splits option.splits entry.splits)

lemma emits_stat: "emits P (stat dir n)"
  by (simp add: emits_def stat_def split: option.splits)

lemma sweep_logs_Cons:
  "sweep_logs t (n # ns) =
      and_then (stat logs_dir n)
         (\<lambda>st. if entry_mtime st < t
                then and_then (unlink_log n)
                       (\<lambda>u. and_then (do_log INFO ''Deleted old log: {log_file.name}'')
                       (\<lambda>u. sweep_logs t ns))
                else sweep_logs t ns)"
  by (rule ext) (simp add: and_then_def do_log_def split: prod.splits sum.splits)

lemma emits_sweep_logs:
  assumes "\<And>n. P (Unlink (''logs/'' @ n))" and "\<And>l m. P (Log l m)"
  shows "emits P (sweep_logs t ns)"
proof (induction ns)
  case Nil
  show ?case by (simp add: emits_def)
next
  case (Cons n ns)
  show ?case
    unfolding sweep_logs_Cons
    by (intro emits_and_then emits_stat emits_if emits_unlink_log emits_do_log
          assms Cons.IH)
qed

lemma emits_cleanup_old_logs:
  assumes call: "P (Call ''cleanup_old_logs'')" and unl: "\<And>n. P (Unlink (''logs/'' @ n))"
    and lg: "\<And>l m. P (Log l m)"
  shows "emits P cleanup_old_logs"
proof -
  have sweep: "emits P (sweep_logs t ns)" for t ns
    by (intro emits_sweep_logs assms)
  have body: "emits P cleanup_old_logs_body"
    unfolding emits_def
  proof
    fix w
    show "extends P w (snd (cleanup_old_logs_body w))"
      using emitsD [OF sweep]
      by (simp add: cleanup_old_logs_body_def Let_def)
  qed
  have handled: "emits P (except_Exception cleanup_old_logs_body
              (\<lambda>e. do_log WARNING ''Log cleanup warning: {e}''))"
    by (intro emits_except_Exception body emits_do_log lg)
  show ?thesis
    by (rule emits_callI [OF call handled]) (simp add: cleanup_old_logs_def)
qed

lemma emits_main_summary: "(\<And>l m. P (Log l m)) \<Longrightarrow> emits P main_summary"
  unfolding main_summary_def
  by (intro emits_and_then emits_do_log emits_returns)

lemma emits_main_step6:
  assumes "P (Call ''cleanup_old_logs'')" and "\<And>n. P (Unlink (''logs/'' @ n))"
    and "\<And>l m. P (Log l m)"
  shows "emits P main_step6"
  unfolding main_step6_def
  by (intro emits_and_then emits_do_log emits_cleanup_old_logs emits_main_summary assms)


lemma emits_main_email_body:
  assumes "\<And>l m. P (Log l m)" and "P (Import ''utils.email.report_sender'')"
    and "P (Import ''pandas'')" and "P (ReadCsv ''results/sentiment_summary_latest.csv'')"
    and "\<And>df. P (SendEmail df False)"
  shows "emits P main_email_body"
  unfolding main_email_body_def
  by (intro emits_and_then emits_import_stmt emits_fun_if emits_if emits_pd_read_csv
        emits_do_log emits_new_sender emits_sender_send_email assms)

lemma emits_main_step5:
  assumes "P (Call ''cleanup_old_logs'')" and "\<And>n. P (Unlink (''logs/'' @ n))"
    and "\<And>l m. P (Log l m)" and "P (Import ''utils.email.report_sender'')"
    and "P (Import ''pandas'')" and "P (ReadCsv ''results/sentiment_summary_latest.csv'')"
    and "\<And>df. P (SendEmail df False)"
  shows "emits P main_step5"
  unfolding main_step5_def
  by (intro emits_and_then emits_do_log emits_except_Exception emits_main_email_body
        emits_main_step6 assms)


lemma emits_main_event_step5: "emits main_event main_step5"
  by (rule emits_main_step5) simp_all

lemma emits_main_step3: "emits main_event main_step3"
  unfolding main_step3_def
  by (intro emits_and_then emits_do_log emits_rcl emits_rcl_fun emits_if emits_returns
        emits_main_event_step5) simp_all

lemma emits_main_step2: "emits main_event (main_step2 py)"
  unfolding main_step2_def
  by (intro emits_and_then emits_do_log emits_rcl emits_if emits_returns emits_main_step3)
     simp_all

lemma emits_main_step1: "emits main_event (main_step1 py)"
  unfolding main_step1_def
  by (intro emits_and_then emits_do_log emits_rcl emits_if emits_returns emits_main_step2)
     simp_all


lemma emits_main_prerequisites: "emits main_event main_prerequisites"
proof -
  have tail: "emits main_event
    (\<lambda>w. if \<not> sentiment_script_exists (fs w) then
         and_then (do_log ERROR ''Missing sentiment script: {sentiment_script}'')
           (\<lambda>u. returns False) w
       else if \<not> dashboard_script_exists (fs w) then
         and_then (do_log ERROR ''Missing dashboard script: {dashboard_script}'')
           (\<lambda>u. returns False) w
       else
         and_then (do_log INFO ''All prerequisites checked successfully'')
           (\<lambda>u. main_step1 py) w)" for py
    by (intro emits_fun_if emits_and_then emits_do_log emits_returns emits_main_step1)
       simp_all
  show ?thesis
    unfolding main_prerequisites_def
    by (intro emits_and_then emits_do_log emits_find_python tail) simp_all
qed

lemma emits_main: "emits main_event main"
proof -
  have banner: "emits main_event main_banner"
    unfolding main_banner_def
    by (intro emits_and_then emits_do_log emits_getcwd) simp_all
  have logging: "emits main_event setup_logging"
    by (rule emits_setup_logging) simp_all
  have rest: "emits main_event
      (and_then setup_logging (\<lambda>logger. and_then main_banner (\<lambda>u. main_prerequisites)))"
    by (intro emits_and_then logging banner emits_main_prerequisites)
  have call: "main_event (Call ''main'')" by simp
  show ?thesis
    by (rule emits_callI [OF call rest]) (simp add: main_def)
qed

lemma main_new_events:
  "trace (snd (main w)) = trace w @ new_events w (snd (main w)) \<and>
   list_all main_event (new_events w (snd (main w)))"
  by (rule extends_new_events [OF emitsD [OF emits_main]])


section \<open>Properties of \<open>main\<close>\<close>

lemma keeps_cwd_id: "(\<And>n c. effect (p n c) = (\<lambda>f. f)) \<Longrightarrow> keeps_cwd p"
  by (simp add: keeps_cwd_def)

lemma logging_ok_sample: "logs_dir (fs w) = logs_dir sample_fs \<Longrightarrow> logging_ok w"
  by (simp add: logging_ok_def sample_fs_def dir_lookup_def)

text \<open>
  Claim C2 says that \<open>main\<close> returns false only on a fatal failure of the prerequisite
  check, of the collection or of the generation. It also returns false when
  \<open>git add index.html\<close> fails (the source logs "Git add index.html failed!" and returns
  \<open>False\<close>): here both scripts are there and collection and generation exit with status
  zero, and \<open>main\<close> returns \<open>False\<close>.
\<close>

theorem main_false_on_failed_staging:
  "fst (main add_fails_world) = Inr False \<and> prerequisites_ok add_fails_world \<and>
   collect_ok add_fails_world \<and> generate_ok add_fails_world"
proof -
  have "logging_ok add_fails_world"
    by (rule logging_ok_sample) (simp add: add_fails_world_def)
  moreover have "cwd_exists (fs add_fails_world)"
    by (simp add: add_fails_world_def)
  moreover have "keeps_cwd (procs add_fails_world)"
    by (rule keeps_cwd_id) (simp add: add_fails_world_def)
  ultimately show ?thesis
    by (simp add: main_fst prerequisites_ok_def collect_ok_def generate_ok_def add_ok_def
        add_fails_world_def sample_fs_def python_path_of_def)
qed

text \<open>
  Claim C2 as amended. Whenever \<open>main\<close> returns, it returns false exactly when a script
  is missing or the collection, the generation or \<open>git add index.html\<close> fails; the
  result does not depend on the commit, the push, the e-mail or the cleanup, after whose
  failure \<open>main\<close> still returns true. It does return when logging can be set up, the
  working directory is there and no command removes it. It raises, and returns nothing,
  when logging cannot be set up (\<open>logs\<close> is a regular file, or the log file a
  directory) or the working directory has been removed.
\<close>

theorem main_result:
  "(\<forall>b. fst (main w) = Inr b \<longrightarrow>
      b = (prerequisites_ok w \<and> collect_ok w \<and> generate_ok w \<and> add_ok w)) \<and>
   (logging_ok w \<and> cwd_exists (fs w) \<and> keeps_cwd (procs w) \<longrightarrow>
      fst (main w) = Inr (prerequisites_ok w \<and> collect_ok w \<and> generate_ok w \<and> add_ok w)) \<and>
   (\<not> logging_ok w \<or> \<not> cwd_exists (fs w) \<longrightarrow> (\<exists>e. fst (main w) = Inl e))"
proof (intro conjI allI impI)
  fix b
  assume "fst (main w) = Inr b"
  then show "b = (prerequisites_ok w \<and> collect_ok w \<and> generate_ok w \<and> add_ok w)"
    by (rule main_ret)
next
  assume "logging_ok w \<and> cwd_exists (fs w) \<and> keeps_cwd (procs w)"
  then show "fst (main w) =
      Inr (prerequisites_ok w \<and> collect_ok w \<and> generate_ok w \<and> add_ok w)"
    by (simp add: main_fst)
next
  assume a: "\<not> logging_ok w \<or> \<not> cwd_exists (fs w)"
  show "\<exists>e. fst (main w) = Inl e"
  proof (cases "logging_ok w")
    case False
    then show ?thesis by (rule main_no_logging(1))
  next
    case True
    with a have "\<not> cwd_exists (fs w)" by simp
    from main_no_cwd [OF True this] show ?thesis by simp
  qed
qed

theorem main_result_witness:
  "logging_ok push_fails_world \<and> cwd_exists (fs push_fails_world) \<and>
   keeps_cwd (procs push_fails_world) \<and>
   fst (main push_fails_world) = Inr True \<and> \<not> push_ok push_fails_world \<and>
   \<not> cwd_exists (fs removed_cwd_world) \<and> (\<exists>e. fst (main removed_cwd_world) = Inl e)"
proof -
  have l: "logging_ok push_fails_world"
    by (rule logging_ok_sample) (simp add: push_fails_world_def)
  have c: "cwd_exists (fs push_fails_world)"
    by (simp add: push_fails_world_def)
  have k: "keeps_cwd (procs push_fails_world)"
    by (rule keeps_cwd_id) (simp add: push_fails_world_def)
  have g: "\<not> cwd_exists (fs removed_cwd_world)"
    by (simp add: removed_cwd_world_def)
  show ?thesis
    using l c k g main_result [of push_fails_world] main_result [of removed_cwd_world]
    by (simp add: prerequisites_ok_def collect_ok_def generate_ok_def add_ok_def push_ok_def
        push_fails_world_def sample_fs_def python_path_of_def)
qed

lemma logging_world_prelude: "extends prelude_event w (logging_world w)"
proof -
  have "emits prelude_event setup_logging"
    by (rule emits_setup_logging) simp_all
  then have "extends prelude_event (emit (Call ''main'') w) (logging_world w)"
    unfolding logging_world_def by (rule emitsD)
  moreover have "extends prelude_event w (emit (Call ''main'') w)"
    by (rule extends_emit) simp
  ultimately show ?thesis by (rule extends_trans [rotated])
qed

lemma logging_world_trace:
  "logging_ok w \<Longrightarrow>
   trace (logging_world w) =
     trace w @ [Call ''main'', Call ''setup_logging'', Mkdir ''logs'',
                OpenAppend ''logs/tigro_master_detailed.log'']"
proof -
  assume "logging_ok w"
  then have "logging_ok (emit (Call ''main'') w)" by (simp add: logging_ok_def)
  from setup_logging_trace [OF this] show ?thesis
    by (simp add: logging_world_def)
qed

text \<open>
  Claim C6 says that \<open>main\<close> returns false when one of the two scripts is missing. It
  does not when its first call fails: \<open>setup_logging\<close> is called before the check and
  outside every \<open>try\<close>, and with a regular file where the directory \<open>logs\<close> should be
  its \<open>mkdir\<close> raises \<open>FileExistsError\<close>, which \<open>main\<close> raises to its caller.
\<close>

theorem main_raises_without_logs_directory:
  "\<not> prerequisites_ok no_logs_world \<and>
   fst (main no_logs_world) = Inl (OtherException ''FileExistsError'')"
  by (simp add: main_def and_then_def setup_logging_def mkdir_logs_def Let_def
        prerequisites_ok_def no_logs_world_def sample_fs_def)

text \<open>
  Claim C6 as amended: when one of the two scripts is missing, \<open>main\<close> executes none of
  its steps, whatever else happens: all it adds to the trace is its own entry, the work of
  \<open>setup_logging\<close> (which creates \<open>logs\<close> and the log file when they are missing) and
  log records, so there is no call of the runner, no process, no git command, no e-mail
  and no cleanup; no process is started, and \<open>docs\<close> and \<open>results\<close> are as they
  were. When logging can be set up and the working directory is there, \<open>main\<close>
  returns false, having written its banner, the two lines of the check and the error;
  otherwise it raises.
\<close>

theorem main_aborts_without_scripts:
  assumes "\<not> prerequisites_ok w"
  shows "list_all prelude_event (new_events w (snd (main w))) \<and>
         ncalls (snd (main w)) = ncalls w \<and>
         docs_dir (fs (snd (main w))) = docs_dir (fs w) \<and>
         results_dir (fs (snd (main w))) = results_dir (fs w) \<and>
         (logging_ok w \<and> cwd_exists (fs w) \<longrightarrow>
            fst (main w) = Inr False \<and>
            new_events w (snd (main w)) =
              [Call ''main'', Call ''setup_logging'', Mkdir ''logs'',
               OpenAppend ''logs/tigro_master_detailed.log''] @
              map (Log INFO)
                [rule_line, ''TIGRO DAILY AUTOMATION STARTED'', ''Date: {start_time}'',
                 ''Project Root: {os.getcwd()}'', ''Python Executable: {sys.executable}'',
                 ''Python Virtual Environment: {VIRTUAL_ENV}'', rule_line,
                 ''Checking prerequisites...'', ''Python executable: {python_path}''] @
              [Log ERROR (if \<not> sentiment_script_exists (fs w)
                          then ''Missing sentiment script: {sentiment_script}''
                          else ''Missing dashboard script: {dashboard_script}'')]) \<and>
         (\<not> (logging_ok w \<and> cwd_exists (fs w)) \<longrightarrow> (\<exists>e. fst (main w) = Inl e))"
proof -
  from logging_world_prelude [of w] obtain evs where
    lw: "trace (logging_world w) = trace w @ evs" and lp: "list_all prelude_event evs"
    by (auto simp: extends_def)
  have lf: "docs_dir (fs (logging_world w)) = docs_dir (fs w)"
    "results_dir (fs (logging_world w)) = results_dir (fs w)"
    by simp_all
  show ?thesis
  proof (cases "logging_ok w")
    case False
    with lw lp lf main_no_logging [OF False] show ?thesis
      by (simp add: new_events_def)
  next
    case l: True
    show ?thesis
    proof (cases "cwd_exists (fs w)")
      case False
      have "new_events w (snd (main w)) =
              evs @
              map (Log INFO) [rule_line, ''TIGRO DAILY AUTOMATION STARTED'', ''Date: {start_time}'']"
        by (simp add: main_no_cwd [OF l False] new_events_def lw)
      with lp lf False show ?thesis
        by (simp add: main_no_cwd [OF l False])
    next
      case c: True
      have m: "main w =
        (Inr False,
         log ERROR (if \<not> sentiment_script_exists (fs w)
                    then ''Missing sentiment script: {sentiment_script}''
                    else ''Missing dashboard script: {dashboard_script}'')
        (log INFO ''Python executable: {python_path}''
        (log INFO ''Checking prerequisites...''
        (log INFO rule_line
        (log INFO ''Python Virtual Environment: {VIRTUAL_ENV}''
        (log INFO ''Python Executable: {sys.executable}''
        (log INFO ''Project Root: {os.getcwd()}''
        (log INFO ''Date: {start_time}''
        (log INFO ''TIGRO DAILY AUTOMATION STARTED''
        (log INFO rule_line (logging_world w)))))))))))"
        using l c assms by (rule main_unchecked)
      show ?thesis
        using l c lf by (simp add: m new_events_def logging_world_trace [OF l])
    qed
  qed
qed

theorem main_aborts_without_scripts_witness:
  "\<not> prerequisites_ok no_script_world \<and> logging_ok no_script_world \<and>
   cwd_exists (fs no_script_world) \<and> fst (main no_script_world) = Inr False \<and>
   ncalls (snd (main no_script_world)) = 0 \<and>
   filter is_Run (new_events no_script_world (snd (main no_script_world))) = [] \<and>
   \<not> logging_ok no_logs_world \<and> (\<exists>e. fst (main no_logs_world) = Inl e)"
proof -
  have p: "\<not> prerequisites_ok no_script_world" "\<not> prerequisites_ok no_logs_world"
    by (simp_all add: prerequisites_ok_def no_script_world_def no_logs_world_def)
  have l: "logging_ok no_script_world"
    by (rule logging_ok_sample) (simp add: no_script_world_def)
  have c: "cwd_exists (fs no_script_world)"
    by (simp add: no_script_world_def sample_fs_def)
  have n: "\<not> logging_ok no_logs_world"
    by (simp add: logging_ok_def no_logs_world_def)
  show ?thesis
    using p l c n main_aborts_without_scripts [OF p(1)] main_aborts_without_scripts [OF p(2)]
    by (simp add: no_script_world_def)
qed


lemma first_event:
  assumes "extends P (emit e w) w'"
  shows "take 1 (new_events w w') = [e]"
  using assms by (auto simp: extends_def new_events_def)

lemma emits_rmtree_docs: "P (Rmtree ''docs'') \<Longrightarrow> emits P rmtree_docs"
  by (auto simp: emits_def rmtree_docs_def Let_def extends_fs_update extends_emit
           split: dirstate.splits)

lemma emits_mkdir_docs: "P (Mkdir ''docs'') \<Longrightarrow> emits P mkdir_docs"
  by (auto simp: emits_def mkdir_docs_def Let_def extends_fs_update extends_emit
           split: dirstate.splits)

lemma emits_copy2_to_docs:
  "P (Copy2 (''results/'' @ src) (''docs/'' @ dst)) \<Longrightarrow> emits P (copy2_to_docs src dst)"
  by (auto simp: emits_def copy2_to_docs_def Let_def extends_fs_update extends_emit
           split: dirstate.splits option.splits entry.splits)

lemma copy_articles_Cons:
  "copy_articles (a # rest) n =
     and_then (copy2_to_docs a a) (\<lambda>u. copy_articles rest (n + 1))"
  by (rule ext) (simp add: and_then_def split: prod.splits sum.splits)

lemma emits_copy_articles:
  assumes "\<And>s t. P (Copy2 s t)"
  shows "emits P (copy_articles names n)"
proof (induction names arbitrary: n)
  case Nil
  show ?case by (simp add: emits_def)
next
  case (Cons a names)
  show ?case
    unfolding copy_articles_Cons
    by (intro emits_and_then emits_copy2_to_docs assms Cons.IH)
qed

lemma emits_clean_docs:
  assumes "\<And>l m. P (Log l m)" and "P (Rmtree ''docs'')"
  shows "emits P clean_docs"
  unfolding emits_def
proof
  fix w
  let ?w1 = "log INFO ''Cleaning docs directory of historic data...'' w"
  have "extends P w ?w1" using assms(1) by (rule extends_log)
  moreover have "emits P rmtree_docs"
    using assms(2) by (rule emits_rmtree_docs)
  then have "extends P ?w1 (snd (rmtree_docs ?w1))"
    by (rule emitsD)
  ultimately have "extends P w (snd (rmtree_docs ?w1))" by (rule extends_trans)
  then show "extends P w (snd (clean_docs w))"
    by (simp add: clean_docs_def)
qed

lemma emits_copy_report:
  assumes "\<And>l m. P (Log l m)" and "\<And>s t. P (Copy2 s t)"
  shows "emits P copy_report"
proof -
  have a: "emits P (and_then (copy2_to_docs ''sentiment_report_latest.html'' ''index.html'')
          (\<lambda>u. and_then (copy2_to_docs ''sentiment_report_latest.html''
                            ''sentiment_report_latest.html'')
          (\<lambda>u. do_log INFO
             ''Copied main dashboard as index.html and sentiment_report_latest.html'')))"
    by (intro emits_and_then emits_copy2_to_docs emits_do_log assms)
  have b: "emits P (do_log WARNING ''No sentiment report found to copy'')"
    by (intro emits_do_log assms)
  show ?thesis
    unfolding emits_def
  proof
    fix w
    show "extends P w (snd (copy_report w))"
      using emitsD [OF a, of w] emitsD [OF b, of w] by (simp add: copy_report_def)
  qed
qed

lemma emits_copy_latest_articles:
  assumes "\<And>s t. P (Copy2 s t)"
  shows "emits P copy_latest_articles"
  using emits_copy_articles [of P, OF assms]
  by (simp add: emits_def copy_latest_articles_def)

lemma emits_copy_latest_files:
  assumes "\<And>l m. P (Log l m)" and "\<And>s t. P (Copy2 s t)"
  shows "emits P copy_latest_files"
  unfolding copy_latest_files_def
  by (intro emits_and_then emits_copy_report emits_copy_latest_articles emits_do_log
        emits_returns assms)

lemma emits_copy_to_docs_body:
  assumes "\<And>l m. P (Log l m)" and "P (Rmtree ''docs'')" and "P (Mkdir ''docs'')"
    and "\<And>s t. P (Copy2 s t)"
  shows "emits P copy_to_docs_body"
  unfolding copy_to_docs_body_def
  by (intro emits_and_then emits_clean_docs emits_mkdir_docs emits_copy_latest_files assms)

lemma copy_to_docs_first_event:
  "take 1 (new_events w (snd (copy_to_docs w))) = [Call ''copy_to_docs'']"
proof -
  have "emits (\<lambda>e. True) (except_Exception copy_to_docs_body
       (\<lambda>e. and_then (do_log ERROR ''Error copying files to docs: {e}'') (\<lambda>u. returns False)))"
    by (intro emits_except_Exception emits_copy_to_docs_body emits_and_then emits_do_log
          emits_returns) simp_all
  then have "extends (\<lambda>e. True) (emit (Call ''copy_to_docs'') w) (snd (copy_to_docs w))"
    unfolding copy_to_docs_def by (rule emitsD)
  then show ?thesis by (rule first_event)
qed


lemma extends_run_commands:
  assumes "\<And>l m. P (Log l m)" and "\<And>c d env. P (Run c d env)"
  shows "extends P w (snd (run_commands cmds w))"
proof (induction cmds arbitrary: w)
  case Nil
  show ?case by simp
next
  case (Cons c cmds)
  let ?w1 = "run_world c (cwd w) (environ w) (log INFO ''Running: {cmd}'' w)"
  have a: "extends P w ?w1"
    using assms by (simp add: extends_def)
  have b: "extends P w (snd (run_commands cmds ?w1))"
    using a Cons.IH by (rule extends_trans)
  show ?case
    using a b by (simp add: subprocess_run_eq split: outcome.splits)
qed

lemma push_to_github_first_event:
  "take 1 (new_events w (snd (push_to_github w))) = [Call ''push_to_github'']"
proof -
  let ?w0 = "emit (Call ''push_to_github'') w"
  let ?cmds = "[[''git'', ''add'', ''results/*''],
             [''git'', ''add'', ''docs/*''],
             [''git'', ''commit'', ''-m'',
              ''Update sentiment analysis and dashboard - '' @ timestamp w],
             [''git'', ''push'']]"
  obtain r w1 where rc: "run_commands ?cmds ?w0 = (r, w1)"
    by (cases "run_commands ?cmds ?w0")
  have "extends (\<lambda>e. True) ?w0 (snd (run_commands ?cmds ?w0))"
    by (rule extends_run_commands) simp_all
  with rc have e1: "extends (\<lambda>e. True) ?w0 w1"
    by (simp del: run_commands.simps)
  have e2: "extends (\<lambda>e. True) ?w0 (log l m w1)" for l m
    using e1 by (rule extends_trans) (simp add: extends_log)
  have "extends (\<lambda>e. True) ?w0 (snd (push_to_github w))"
    unfolding push_to_github_def Let_def rc
    using e1 e2 by (simp split: sum.splits)
  then show ?thesis by (rule first_event)
qed


lemma extends_max_by_mtime: "extends P w (snd (max_by_mtime best k names w))"
proof (induction names arbitrary: best k w)
  case Nil
  show ?case by simp
next
  case (Cons f names)
  show ?case
    using Cons.IH by (simp add: stat_def split: option.splits)
qed

lemma emits_load_summary:
  assumes "\<And>l m. P (Log l m)" and "\<And>p. P (ReadCsv p)"
  shows "emits P load_summary"
proof -
  have mx: "emits P (max_by_mtime best k names)" for best k names
    by (simp add: emits_def extends_max_by_mtime)
  have files: "emits P (and_then (stat results_dir f)
                  (\<lambda>st. and_then (max_by_mtime f (entry_mtime st) rest)
                  (\<lambda>latest_file. and_then (pd_read_csv (''results/'' @ latest_file))
                  (\<lambda>df. returns (Some df)))))" for f rest
    by (intro emits_and_then emits_stat mx emits_pd_read_csv emits_returns assms)
  have latest: "emits P (and_then (pd_read_csv ''results/sentiment_summary_latest.csv'')
                  (\<lambda>df. returns (Some df)))"
    by (intro emits_and_then emits_pd_read_csv emits_returns assms)
  show ?thesis
    unfolding emits_def
  proof
    fix w
    show "extends P w (snd (load_summary w))"
      using emitsD [OF files] emitsD [OF latest] assms(1)
      by (simp add: load_summary_def Let_def extends_log split: list.splits)
  qed
qed

lemma emits_case_option:
  "emits P f \<Longrightarrow> (\<And>x. emits P (g x)) \<Longrightarrow> emits P (case v of None \<Rightarrow> f | Some x \<Rightarrow> g x)"
  by (cases v) simp_all

lemma send_email_report_first_event:
  "take 1 (new_events w (snd (send_email_report w))) = [Call ''send_email_report'']"
proof -
  have body: "emits (\<lambda>e. True) send_email_report_body"
    unfolding send_email_report_body_def
    by (intro emits_and_then emits_do_log emits_import_stmt emits_load_summary
          emits_case_option emits_returns emits_new_sender emits_sender_send_email) simp_all
  have "emits (\<lambda>e. True) (except_Exception send_email_report_body
       (\<lambda>e. and_then (do_log ERROR ''Error sending email report: {e}'') (\<lambda>u. returns False)))"
    by (intro emits_except_Exception body emits_and_then emits_do_log emits_returns) simp_all
  then have "extends (\<lambda>e. True) (emit (Call ''send_email_report'') w)
               (snd (send_email_report w))"
    unfolding send_email_report_def by (rule emitsD)
  then show ?thesis by (rule first_event)
qed

text \<open>
  Claim C10: in no execution does \<open>main\<close> enter \<open>copy_to_docs\<close>, \<open>push_to_github\<close>
  or \<open>send_email_report\<close> (each of which records its entry first of all); the only
  commands \<open>main\<close> runs are the two scripts, \<open>git add index.html\<close>, \<open>git commit -m\<close> and
  \<open>git push origin gh-pages\<close>; it never removes a directory or copies into one, and the
  only directory it creates is \<open>logs\<close> (in \<open>setup_logging\<close>).
\<close>

theorem main_never_calls_publisher:
  "Call ''copy_to_docs'' \<notin> set (new_events w (snd (main w))) \<and>
   Call ''push_to_github'' \<notin> set (new_events w (snd (main w))) \<and>
   Call ''send_email_report'' \<notin> set (new_events w (snd (main w))) \<and>
   (\<forall>c d env. Run c d env \<in> set (new_events w (snd (main w))) \<longrightarrow> main_command c) \<and>
   (\<forall>p. Rmtree p \<notin> set (new_events w (snd (main w)))) \<and>
   (\<forall>p. Mkdir p \<in> set (new_events w (snd (main w))) \<longrightarrow> p = ''logs'') \<and>
   (\<forall>s t. Copy2 s t \<notin> set (new_events w (snd (main w)))) \<and>
   (\<forall>w1. take 1 (new_events w1 (snd (copy_to_docs w1))) = [Call ''copy_to_docs'']) \<and>
   (\<forall>w1. take 1 (new_events w1 (snd (push_to_github w1))) = [Call ''push_to_github'']) \<and>
   (\<forall>w1. take 1 (new_events w1 (snd (send_email_report w1))) = [Call ''send_email_report''])"
proof -
  have "list_all main_event (new_events w (snd (main w)))"
    using main_new_events by simp
  then have ev: "\<And>e. e \<in> set (new_events w (snd (main w))) \<Longrightarrow> main_event e"
    by (simp add: list_all_iff)
  show ?thesis
    using ev copy_to_docs_first_event push_to_github_first_event send_email_report_first_event
    by fastforce
qed


lemmas main_unfold =
  main_banner_def main_prerequisites_def main_step1_def main_step2_def
  main_step3_def main_step5_def main_step6_def main_summary_def main_email_body_def
  and_then_rcl and_then_rcl_fun and_then_if and_then_assoc and_then_getcwd returns_def
  and_then_find_python Let_def

lemmas collaborators_unfold =
  and_then_def [of "import_stmt _"] and_then_def [of "pd_read_csv _"]
  and_then_def [of new_sender] and_then_def [of "sender_send_email _ _"]
  and_then_def [of cleanup_old_logs] and_then_def [of "except_Exception _ _"]
  except_Exception_def import_stmt_def pd_read_csv_def new_sender_def
  sender_send_email_def do_log_def dir_lookup_def cleanup_old_logs_def
  cleanup_old_logs_body_def glob_def fnmatch_def stat_def

lemma logging_world_sample: "fs w = sample_fs \<Longrightarrow> fs (logging_world w) = sample_fs"
  by (simp add: logging_world_def setup_logging_def and_then_def mkdir_logs_def
        open_log_file_def Let_def sample_fs_def)

lemma main_sample_runs:
  "filter is_Run (new_events sample_world (snd (main sample_world))) =
     map (\<lambda>c. Run c ''/home/user/Kalimera''
                 [(''PATH'', ''/usr/bin''), (''PYTHONPATH'', ''/home/user/Kalimera'')])
       [[''/usr/bin/python3'', ''sent_collect_data.py''],
        [''/usr/bin/python3'', ''viz_dashboard_generator.py''],
        [''git'', ''add'', ''index.html''],
        [''git'', ''commit'', ''-m'', ''Daily dashboard update - 2025-01-01 06:00:00''],
        [''git'', ''push'', ''origin'', ''gh-pages'']]"
proof -
  have l: "logging_ok sample_world"
    by (rule logging_ok_sample) simp
  have f: "fs (logging_world sample_world) = sample_fs"
    by (rule logging_world_sample) simp
  show ?thesis
    by (simp add: main_logging [OF l] main_unfold collaborators_unfold new_events_def
          rcl_after_trace child_env_def logging_world_trace [OF l] f sample_fs_def)
qed


theorem main_never_calls_publisher_witness:
  "Run [''git'', ''push'', ''origin'', ''gh-pages''] ''/home/user/Kalimera''
       [(''PATH'', ''/usr/bin''), (''PYTHONPATH'', ''/home/user/Kalimera'')]
     \<in> set (new_events sample_world (snd (main sample_world))) \<and>
   main_command [''git'', ''push'', ''origin'', ''gh-pages''] \<and>
   Call ''copy_to_docs'' \<notin> set (new_events sample_world (snd (main sample_world))) \<and>
   take 1 (new_events sample_world (snd (copy_to_docs sample_world))) = [Call ''copy_to_docs'']"
proof -
  have "Run [''git'', ''push'', ''origin'', ''gh-pages''] ''/home/user/Kalimera''
       [(''PATH'', ''/usr/bin''), (''PYTHONPATH'', ''/home/user/Kalimera'')]
     \<in> set (filter is_Run (new_events sample_world (snd (main sample_world))))"
    by (simp add: main_sample_runs)
  then have "Run [''git'', ''push'', ''origin'', ''gh-pages''] ''/home/user/Kalimera''
       [(''PATH'', ''/usr/bin''), (''PYTHONPATH'', ''/home/user/Kalimera'')]
     \<in> set (new_events sample_world (snd (main sample_world)))"
    by simp
  then show ?thesis
    using main_never_calls_publisher [of sample_world] by simp
qed















lemma timestamp_later [simp]:
  "timestamp (snd (run_command_with_logging c d m w)) = timestamp w"
  by (cases "cwd_exists (fs w)"; cases "1 \<le> m") (simp_all add: rcl_pos rcl_nonpos rcl_gone)








section \<open>Properties of \<open>copy_to_docs\<close>\<close>

lemma same_but_docs_refl [simp]: "same_but_docs f f"
  by (simp add: same_but_docs_def)

lemma same_but_docs_trans:
  "same_but_docs f g \<Longrightarrow> same_but_docs g h \<Longrightarrow> same_but_docs f h"
  by (simp add: same_but_docs_def)

lemma docs_stepD1: "docs_step f \<Longrightarrow> same_but_docs (fs w) (fs (snd (f w)))"
  unfolding docs_step_def by blast

lemma docs_stepD2:
  "docs_step f \<Longrightarrow> fs w2 = fs w \<Longrightarrow>
     fst (f w2) = fst (f w) \<and> fs (snd (f w2)) = fs (snd (f w))"
  unfolding docs_step_def by blast

lemma docs_step_do_log: "docs_step (do_log l m)"
  by (simp add: docs_step_def do_log_def)

lemma docs_step_returns: "docs_step (returns a)"
  by (simp add: docs_step_def returns_def)

lemma docs_step_and_then:
  assumes m: "docs_step m" and k: "\<And>a. docs_step (k a)"
  shows "docs_step (and_then m k)"
  unfolding docs_step_def
proof (intro allI conjI impI)
  fix w
  obtain r w1 where mw: "m w = (r, w1)" by (cases "m w")
  from docs_stepD1 [OF m, of w] mw have d1: "same_but_docs (fs w) (fs w1)"
    by simp
  show "same_but_docs (fs w) (fs (snd (and_then m k w)))"
  proof (cases r)
    case (Inl e)
    with mw d1 show ?thesis by (simp add: and_then_def)
  next
    case (Inr a)
    have "same_but_docs (fs w1) (fs (snd (k a w1)))"
      using k by (rule docs_stepD1)
    with d1 have "same_but_docs (fs w) (fs (snd (k a w1)))"
      by (rule same_but_docs_trans)
    with mw Inr show ?thesis by (simp add: and_then_def)
  qed
next
  fix w w2 :: world
  assume same: "fs w2 = fs w"
  obtain r w1 where mw: "m w = (r, w1)" by (cases "m w")
  obtain r2 w12 where mw2: "m w2 = (r2, w12)" by (cases "m w2")
  from docs_stepD2 [OF m same] mw mw2 have eq: "r2 = r" "fs w12 = fs w1" by simp_all
  show "fst (and_then m k w2) = fst (and_then m k w)"
  proof (cases r)
    case (Inl e)
    with mw mw2 eq show ?thesis by (simp add: and_then_def)
  next
    case (Inr a)
    from docs_stepD2 [OF k eq(2), of a] mw mw2 eq Inr show ?thesis
      by (simp add: and_then_def)
  qed
  show "fs (snd (and_then m k w2)) = fs (snd (and_then m k w))"
  proof (cases r)
    case (Inl e)
    with mw mw2 eq show ?thesis by (simp add: and_then_def)
  next
    case (Inr a)
    from docs_stepD2 [OF k eq(2), of a] mw mw2 eq Inr show ?thesis
      by (simp add: and_then_def)
  qed
qed


lemma docs_step_copy2_to_docs: "docs_step (copy2_to_docs src dst)"
  unfolding docs_step_def
proof (intro allI conjI impI)
  fix w
  show "same_but_docs (fs w) (fs (snd (copy2_to_docs src dst w)))"
    by (simp add: copy2_to_docs_def Let_def same_but_docs_def
          split: option.splits entry.splits dirstate.splits)
next
  fix w w2 :: world
  assume same: "fs w2 = fs w"
  then show "fst (copy2_to_docs src dst w2) = fst (copy2_to_docs src dst w)"
    by (simp add: copy2_to_docs_def Let_def
          split: option.splits entry.splits dirstate.splits)
  from same show "fs (snd (copy2_to_docs src dst w2)) = fs (snd (copy2_to_docs src dst w))"
    by (simp add: copy2_to_docs_def Let_def
          split: option.splits entry.splits dirstate.splits)
qed

lemma docs_step_copy_articles: "docs_step (copy_articles names n)"
proof (induction names arbitrary: n)
  case Nil
  show ?case by (simp add: docs_step_def)
next
  case (Cons a names)
  show ?case
    unfolding copy_articles_Cons
    by (intro docs_step_and_then docs_step_copy2_to_docs Cons.IH)
qed

lemma docs_step_fs_choice:
  assumes "\<And>x. docs_step (f x)"
  shows "docs_step (\<lambda>w. f (g (fs w)) w)"
  unfolding docs_step_def
proof (intro allI conjI impI)
  fix w
  show "same_but_docs (fs w) (fs (snd (f (g (fs w)) w)))"
    using assms by (rule docs_stepD1)
next
  fix w w2 :: world
  assume same: "fs w2 = fs w"
  from docs_stepD2 [OF assms same, of "g (fs w)"] same
  show "fst (f (g (fs w2)) w2) = fst (f (g (fs w)) w)"
    and "fs (snd (f (g (fs w2)) w2)) = fs (snd (f (g (fs w)) w))"
    by simp_all
qed

lemma docs_step_copy_latest_articles: "docs_step copy_latest_articles"
proof -
  have "docs_step (\<lambda>w. (\<lambda>names. copy_articles names 0)
          ((\<lambda>f. glob ''articles_'' ''_latest.html'' (results_dir f)) (fs w)) w)"
    by (rule docs_step_fs_choice) (rule docs_step_copy_articles)
  then show ?thesis
    by (simp add: copy_latest_articles_def [abs_def])
qed

lemma docs_step_copy_report: "docs_step copy_report"
proof -
  let ?yes = "and_then (copy2_to_docs ''sentiment_report_latest.html'' ''index.html'')
          (\<lambda>u. and_then (copy2_to_docs ''sentiment_report_latest.html''
                            ''sentiment_report_latest.html'')
          (\<lambda>u. do_log INFO
             ''Copied main dashboard as index.html and sentiment_report_latest.html''))"
  let ?no = "do_log WARNING ''No sentiment report found to copy''"
  have "docs_step (if b then ?yes else ?no)" for b
    by (simp add: docs_step_and_then docs_step_copy2_to_docs docs_step_do_log)
  then have "docs_step (\<lambda>w. (\<lambda>b. if b then ?yes else ?no)
      ((\<lambda>f. dir_lookup (results_dir f) ''sentiment_report_latest.html'' \<noteq> None) (fs w)) w)"
    by (rule docs_step_fs_choice)
  moreover have "copy_report = (\<lambda>w. (\<lambda>b. if b then ?yes else ?no)
      ((\<lambda>f. dir_lookup (results_dir f) ''sentiment_report_latest.html'' \<noteq> None) (fs w)) w)"
    by (rule ext) (simp add: copy_report_def)
  ultimately show ?thesis by simp
qed

lemma docs_step_copy_latest_files: "docs_step copy_latest_files"
  unfolding copy_latest_files_def
  by (intro docs_step_and_then docs_step_copy_report docs_step_copy_latest_articles
        docs_step_do_log docs_step_returns)


lemma same_but_docs_update:
  "same_but_docs f g \<Longrightarrow> g\<lparr>docs_dir := d\<rparr> = f\<lparr>docs_dir := d\<rparr>"
  by (simp add: same_but_docs_def filesystem.equality)

lemma copy_to_docs_fs:
  "fs (snd (copy_to_docs w)) = fs (snd (copy_to_docs_body (emit (Call ''copy_to_docs'') w)))"
  by (simp add: copy_to_docs_def except_Exception_def and_then_def do_log_def returns_def
        split: prod.splits sum.splits)

lemma copy_to_docs_fst:
  "fst (copy_to_docs w) =
     (case fst (copy_to_docs_body (emit (Call ''copy_to_docs'') w)) of
        Inr b \<Rightarrow> Inr b
      | Inl e \<Rightarrow> if is_Exception e then Inr False else Inl e)"
  by (simp add: copy_to_docs_def except_Exception_def and_then_def do_log_def returns_def
        split: prod.splits sum.splits)

lemma body_not_dir:
  assumes "docs_dir (fs w) = NotDir"
  shows "fs (snd (copy_to_docs_body w)) = fs w"
    and "fst (copy_to_docs_body w) = Inl (OtherException ''NotADirectoryError'')"
  using assms
  by (simp_all add: copy_to_docs_body_def and_then_def clean_docs_def rmtree_docs_def Let_def)

lemma body_cleaned:
  assumes "docs_dir (fs w) \<noteq> NotDir"
  shows "\<exists>w1. copy_to_docs_body w = copy_latest_files w1 \<and>
              fs w1 = (fs w)\<lparr>docs_dir := IsDir []\<rparr>"
proof (cases "docs_dir (fs w)")
  case Missing
  let ?w1 = "(emit (Mkdir ''docs'') w)\<lparr>fs := (fs w)\<lparr>docs_dir := IsDir []\<rparr>\<rparr>"
  from Missing have "copy_to_docs_body w = copy_latest_files ?w1"
    by (simp add: copy_to_docs_body_def and_then_def clean_docs_def mkdir_docs_def Let_def)
  moreover have "fs ?w1 = (fs w)\<lparr>docs_dir := IsDir []\<rparr>" by simp
  ultimately show ?thesis by blast
next
  case NotDir
  with assms show ?thesis by simp
next
  case (IsDir es)
  let ?w0 = "emit (Rmtree ''docs'') (log INFO ''Cleaning docs directory of historic data...'' w)"
  let ?w1 = "(emit (Mkdir ''docs'') (?w0\<lparr>fs := (fs w)\<lparr>docs_dir := Missing\<rparr>\<rparr>))
               \<lparr>fs := (fs w)\<lparr>docs_dir := IsDir []\<rparr>\<rparr>"
  from IsDir have "copy_to_docs_body w = copy_latest_files ?w1"
    by (simp add: copy_to_docs_body_def and_then_def clean_docs_def rmtree_docs_def
          mkdir_docs_def Let_def)
  moreover have "fs ?w1 = (fs w)\<lparr>docs_dir := IsDir []\<rparr>" by simp
  ultimately show ?thesis by blast
qed

text \<open>
  Claim C8: \<open>copy_to_docs\<close> is idempotent. Run a second time right after the first, it
  leaves the same file system (so the same names and contents in \<open>docs\<close>) and returns
  the same value, whatever the directories held before the first run.
\<close>

theorem copy_to_docs_idempotent:
  "fs (snd (copy_to_docs (snd (copy_to_docs w)))) = fs (snd (copy_to_docs w)) \<and>
   fst (copy_to_docs (snd (copy_to_docs w))) = fst (copy_to_docs w)"
proof (cases "docs_dir (fs w) = NotDir")
  case True
  let ?w0 = "emit (Call ''copy_to_docs'') w"
  from True have n0: "docs_dir (fs ?w0) = NotDir" by simp
  have f1: "fs (snd (copy_to_docs w)) = fs w"
    using body_not_dir(1) [OF n0] by (simp add: copy_to_docs_fs)
  let ?w2 = "emit (Call ''copy_to_docs'') (snd (copy_to_docs w))"
  from f1 True have n2: "docs_dir (fs ?w2) = NotDir" by simp
  show ?thesis
    using body_not_dir [OF n0] body_not_dir [OF n2] f1
    by (simp add: copy_to_docs_fs copy_to_docs_fst)
next
  case False
  let ?w0 = "emit (Call ''copy_to_docs'') w"
  from False have "docs_dir (fs ?w0) \<noteq> NotDir" by simp
  from body_cleaned [OF this] obtain w1 where
    b1: "copy_to_docs_body ?w0 = copy_latest_files w1"
    and c1: "fs w1 = (fs w)\<lparr>docs_dir := IsDir []\<rparr>"
    by auto
  have sb: "same_but_docs (fs w1) (fs (snd (copy_latest_files w1)))"
    using docs_step_copy_latest_files by (rule docs_stepD1)
  let ?w' = "snd (copy_to_docs w)"
  have f': "fs ?w' = fs (snd (copy_latest_files w1))"
    by (simp add: copy_to_docs_fs b1)
  let ?w2 = "emit (Call ''copy_to_docs'') ?w'"
  from sb c1 f' have dir: "is_dir (docs_dir (fs ?w2))"
    by (simp add: same_but_docs_def)
  then have "docs_dir (fs ?w2) \<noteq> NotDir" by auto
  from body_cleaned [OF this] obtain w3 where
    b3: "copy_to_docs_body ?w2 = copy_latest_files w3"
    and c3: "fs w3 = (fs ?w')\<lparr>docs_dir := IsDir []\<rparr>"
    by auto
  from same_but_docs_update [OF sb, of "IsDir []"] c1 c3 f' have "fs w3 = fs w1"
    by simp
  from docs_stepD2 [OF docs_step_copy_latest_files this]
  show ?thesis
    by (simp add: copy_to_docs_fs copy_to_docs_fst b1 b3)
qed

lemma keepsD: "keeps I f \<Longrightarrow> I w \<Longrightarrow> I (snd (f w))"
  unfolding keeps_def by blast

lemma keeps_and_then:
  assumes "keeps I m" and "\<And>a. keeps I (k a)"
  shows "keeps I (and_then m k)"
  unfolding keeps_def
proof (intro allI impI)
  fix w
  assume i: "I w"
  obtain r w1 where mw: "m w = (r, w1)" by (cases "m w")
  from keepsD [OF assms(1) i] mw have i1: "I w1" by simp
  show "I (snd (and_then m k w))"
  proof (cases r)
    case (Inl e)
    with mw i1 show ?thesis by (simp add: and_then_def)
  next
    case (Inr a)
    from keepsD [OF assms(2) i1, of a] mw Inr show ?thesis by (simp add: and_then_def)
  qed
qed

lemma keeps_returns: "keeps I (returns a)"
  by (simp add: keeps_def returns_def)

lemma fresh_docs_log: "fresh_docs k r w \<Longrightarrow> fresh_docs k r (log l m w)"
  unfolding fresh_docs_def by (auto simp: drop_append) 

lemma keeps_do_log: "keeps (fresh_docs k r) (do_log l m)"
  by (simp add: keeps_def do_log_def fresh_docs_log)


lemma fresh_docs_emit: "fresh_docs k r w \<Longrightarrow> fresh_docs k r (emit e w)"
  unfolding fresh_docs_def by (clarsimp simp: drop_append) blast

lemma keeps_copy2_to_docs: "keeps (fresh_docs k r) (copy2_to_docs src dst)"
  unfolding keeps_def
proof (intro allI impI)
  fix w
  assume f: "fresh_docs k r w"
  let ?ev = "Copy2 (''results/'' @ src) (''docs/'' @ dst)"
  have e: "fresh_docs k r (emit ?ev w)"
    using f by (rule fresh_docs_emit)
  from f obtain es where es: "docs_dir (fs w) = IsDir es" and le: "k \<le> length (trace w)"
    and r: "results_dir (fs w) = r"
    and old: "\<And>n e. map_of es n = Some e \<Longrightarrow>
           (\<exists>s. Copy2 (''results/'' @ s) (''docs/'' @ n) \<in> set (drop k (trace w)) \<and>
                  dir_lookup r s = Some e)"
    unfolding fresh_docs_def by blast
  show "fresh_docs k r (snd (copy2_to_docs src dst w))"
  proof (cases "dir_lookup r src")
    case None
    with e r show ?thesis by (simp add: copy2_to_docs_def Let_def)
  next
    case (Some en)
    show ?thesis
    proof (cases en)
      case (Subdir t)
      with Some e r show ?thesis by (simp add: copy2_to_docs_def Let_def)
    next
      case (File c t)
      show ?thesis
      proof (cases "\<exists>t'. map_of es dst = Some (Subdir t')")
        case True
        with Some File e r es show ?thesis
          by (auto simp: copy2_to_docs_def Let_def)
      next
        case False
        let ?w' = "(emit ?ev w)\<lparr>fs := (fs w)\<lparr>docs_dir := IsDir (AList.update dst (File c t) es)\<rparr>\<rparr>"
        from False Some File r es have eq: "snd (copy2_to_docs src dst w) = ?w'"
          by (auto simp: copy2_to_docs_def Let_def split: option.splits entry.splits)
        have "fresh_docs k r ?w'"
          unfolding fresh_docs_def
        proof (intro conjI)
          show "k \<le> length (trace ?w')" using le by simp
          show "results_dir (fs ?w') = r" using r by simp
          show "\<exists>es'. docs_dir (fs ?w') = IsDir es' \<and>
            (\<forall>n e. map_of es' n = Some e \<longrightarrow>
              (\<exists>s. Copy2 (''results/'' @ s) (''docs/'' @ n) \<in> set (drop k (trace ?w')) \<and>
                  dir_lookup r s = Some e))"
          proof (rule exI [of _ "AList.update dst (File c t) es"], intro conjI allI impI)
          show "docs_dir (fs ?w') = IsDir (AList.update dst (File c t) es)" by simp
          fix n e
          assume m: "map_of (AList.update dst (File c t) es) n = Some e"
          show "\<exists>s. Copy2 (''results/'' @ s) (''docs/'' @ n) \<in> set (drop k (trace ?w')) \<and>
                  dir_lookup r s = Some e"
          proof (cases "n = dst")
            case True
            with m have "e = File c t" by (simp add: update_conv')
            with True Some File le show ?thesis
              by (auto simp: drop_append intro: exI [of _ src])
          next
            case False
            with m have "map_of es n = Some e" by (simp add: update_conv')
            from old [OF this] le show ?thesis
              by (auto simp: drop_append)
          qed
          qed
        qed
        with eq show ?thesis by simp
      qed
    qed
  qed
qed

lemma keeps_copy_articles: "keeps (fresh_docs k r) (copy_articles names n)"
proof (induction names arbitrary: n)
  case Nil
  show ?case by (simp add: keeps_def)
next
  case (Cons a names)
  show ?case
    unfolding copy_articles_Cons
    by (intro keeps_and_then keeps_copy2_to_docs Cons.IH)
qed

lemma keeps_copy_latest_articles: "keeps (fresh_docs k r) copy_latest_articles"
  using keeps_copy_articles [of k r]
  by (simp add: keeps_def copy_latest_articles_def)

lemma keeps_copy_report: "keeps (fresh_docs k r) copy_report"
proof -
  have a: "keeps (fresh_docs k r)
     (and_then (copy2_to_docs ''sentiment_report_latest.html'' ''index.html'')
          (\<lambda>u. and_then (copy2_to_docs ''sentiment_report_latest.html''
                            ''sentiment_report_latest.html'')
          (\<lambda>u. do_log INFO
             ''Copied main dashboard as index.html and sentiment_report_latest.html'')))"
    by (intro keeps_and_then keeps_copy2_to_docs keeps_do_log)
  show ?thesis
    unfolding keeps_def
  proof (intro allI impI)
    fix w
    assume "fresh_docs k r w"
    then show "fresh_docs k r (snd (copy_report w))"
      using keepsD [OF a, of w]
        keepsD [OF keeps_do_log [of k r WARNING "''No sentiment report found to copy''"], of w]
      by (simp add: copy_report_def)
  qed
qed

lemma keeps_copy_latest_files: "keeps (fresh_docs k r) copy_latest_files"
  unfolding copy_latest_files_def
  by (intro keeps_and_then keeps_copy_report keeps_copy_latest_articles keeps_do_log
        keeps_returns)


lemma body_cleaned_trace:
  assumes "docs_dir (fs w) \<noteq> NotDir"
  shows "\<exists>w1. copy_to_docs_body w = copy_latest_files w1 \<and>
              fs w1 = (fs w)\<lparr>docs_dir := IsDir []\<rparr> \<and>
              trace w1 = trace w @
                (if docs_dir (fs w) = Missing then []
                 else [Log INFO ''Cleaning docs directory of historic data...'',
                       Rmtree ''docs'']) @ [Mkdir ''docs'']"
proof (cases "docs_dir (fs w)")
  case Missing
  let ?w1 = "(emit (Mkdir ''docs'') w)\<lparr>fs := (fs w)\<lparr>docs_dir := IsDir []\<rparr>\<rparr>"
  from Missing have "copy_to_docs_body w = copy_latest_files ?w1"
    by (simp add: copy_to_docs_body_def and_then_def clean_docs_def mkdir_docs_def Let_def)
  moreover have "fs ?w1 = (fs w)\<lparr>docs_dir := IsDir []\<rparr>" by simp
  moreover have "trace ?w1 = trace w @ [] @ [Mkdir ''docs'']" by simp
  ultimately show ?thesis using Missing by auto
next
  case NotDir
  with assms show ?thesis by simp
next
  case (IsDir es)
  let ?w0 = "emit (Rmtree ''docs'') (log INFO ''Cleaning docs directory of historic data...'' w)"
  let ?w1 = "(emit (Mkdir ''docs'') (?w0\<lparr>fs := (fs w)\<lparr>docs_dir := Missing\<rparr>\<rparr>))
               \<lparr>fs := (fs w)\<lparr>docs_dir := IsDir []\<rparr>\<rparr>"
  from IsDir have "copy_to_docs_body w = copy_latest_files ?w1"
    by (simp add: copy_to_docs_body_def and_then_def clean_docs_def rmtree_docs_def
          mkdir_docs_def Let_def)
  moreover have "fs ?w1 = (fs w)\<lparr>docs_dir := IsDir []\<rparr>" by simp
  moreover have "trace ?w1 = trace w @
      [Log INFO ''Cleaning docs directory of historic data...'', Rmtree ''docs''] @
      [Mkdir ''docs'']"
    by simp
  ultimately show ?thesis using IsDir by auto
qed

lemma copy_to_docs_True:
  assumes "copy_to_docs w = (Inr True, w')"
  shows "copy_to_docs_body (emit (Call ''copy_to_docs'') w) = (Inr True, w')"
  using assms
  by (auto simp: copy_to_docs_def except_Exception_def and_then_def do_log_def returns_def
           split: prod.splits sum.splits if_splits)

text \<open>
  Claim C4: after a run of \<open>copy_to_docs\<close> that returns true, nothing of what \<open>docs\<close>
  held before is left. The file system is the one the run would have left had \<open>docs\<close>
  not existed; every entry of \<open>docs\<close> is a file copied from \<open>results\<close> during this
  run; and the run first removed the directory (when there was one) and created it again,
  and only then copied.
\<close>

theorem copy_to_docs_discards_docs:
  assumes "copy_to_docs w = (Inr True, w')"
  shows "fs w' = fs (snd (copy_to_docs (w\<lparr>fs := (fs w)\<lparr>docs_dir := Missing\<rparr>\<rparr>))) \<and>
    (\<exists>es. docs_dir (fs w') = IsDir es \<and>
       (\<forall>n e. map_of es n = Some e \<longrightarrow>
          (\<exists>src. Copy2 (''results/'' @ src) (''docs/'' @ n) \<in> set (new_events w w') \<and>
                 dir_lookup (results_dir (fs w)) src = Some e))) \<and>
    (\<exists>rest. new_events w w' =
        Call ''copy_to_docs'' #
        (if docs_dir (fs w) = Missing then []
         else [Log INFO ''Cleaning docs directory of historic data...'', Rmtree ''docs'']) @
        Mkdir ''docs'' # rest \<and> list_all copy_event rest)"
proof -
  let ?w0 = "emit (Call ''copy_to_docs'') w"
  have body: "copy_to_docs_body ?w0 = (Inr True, w')"
    using assms by (rule copy_to_docs_True)
  have nd: "docs_dir (fs ?w0) \<noteq> NotDir"
  proof
    assume "docs_dir (fs ?w0) = NotDir"
    from body_not_dir(2) [OF this] body show False by simp
  qed
  from body_cleaned_trace [OF nd] obtain w1 where
    b1: "copy_to_docs_body ?w0 = copy_latest_files w1"
    and c1: "fs w1 = (fs w)\<lparr>docs_dir := IsDir []\<rparr>"
    and t1: "trace w1 = trace ?w0 @
                (if docs_dir (fs ?w0) = Missing then []
                 else [Log INFO ''Cleaning docs directory of historic data...'',
                       Rmtree ''docs'']) @ [Mkdir ''docs'']"
    by auto
  from b1 body have clf: "copy_latest_files w1 = (Inr True, w')" by simp
  \<comment> \<open>independence of what docs held\<close>
  let ?v = "w\<lparr>fs := (fs w)\<lparr>docs_dir := Missing\<rparr>\<rparr>"
  let ?u = "emit (Call ''copy_to_docs'') ?v"
  have "docs_dir (fs ?u) \<noteq> NotDir" by simp
  from body_cleaned [OF this] obtain v1 where
    bv: "copy_to_docs_body ?u = copy_latest_files v1"
    and cv: "fs v1 = (fs ?u)\<lparr>docs_dir := IsDir []\<rparr>"
    by auto
  from cv c1 have "fs v1 = fs w1" by simp
  from docs_stepD2 [OF docs_step_copy_latest_files this] clf
  have "fs (snd (copy_latest_files v1)) = fs w'" by simp
  then have part1: "fs w' = fs (snd (copy_to_docs ?v))"
    by (simp add: copy_to_docs_fs bv)
  \<comment> \<open>every file in docs afterwards is a copy made in this run\<close>
  have "fresh_docs (length (trace w)) (results_dir (fs w)) w1"
    using c1 t1 by (simp add: fresh_docs_def)
  from keepsD [OF keeps_copy_latest_files this] clf
  have "fresh_docs (length (trace w)) (results_dir (fs w)) w'" by simp
  then have part2: "\<exists>es. docs_dir (fs w') = IsDir es \<and>
       (\<forall>n e. map_of es n = Some e \<longrightarrow>
          (\<exists>src. Copy2 (''results/'' @ src) (''docs/'' @ n) \<in> set (new_events w w') \<and>
                 dir_lookup (results_dir (fs w)) src = Some e))"
    by (simp add: fresh_docs_def new_events_def)
  \<comment> \<open>the directory is removed and created again before any copy\<close>
  have "emits copy_event copy_latest_files"
    by (rule emits_copy_latest_files) simp_all
  from emitsD [OF this, of w1] clf obtain rest where
    "trace w' = trace w1 @ rest" "list_all copy_event rest"
    by (auto simp: extends_def)
  with t1 have part3: "\<exists>rest. new_events w w' =
        Call ''copy_to_docs'' #
        (if docs_dir (fs w) = Missing then []
         else [Log INFO ''Cleaning docs directory of historic data...'', Rmtree ''docs'']) @
        Mkdir ''docs'' # rest \<and> list_all copy_event rest"
    by (auto simp: new_events_def)
  from part1 part2 part3 show ?thesis by blast
qed


lemma copy_to_docs_sample:
  "fst (copy_to_docs sample_world) = Inr True \<and>
   docs_dir (fs (snd (copy_to_docs sample_world))) =
     IsDir [(''index.html'', File ''report'' 200),
            (''sentiment_report_latest.html'', File ''report'' 200),
            (''articles_AAPL_latest.html'', File ''apple'' 201)]"
  by (simp add: copy_to_docs_def copy_to_docs_body_def copy_latest_files_def clean_docs_def
        copy_report_def copy_latest_articles_def except_Exception_def and_then_def
        rmtree_docs_def mkdir_docs_def copy2_to_docs_def do_log_def returns_def
        dir_lookup_def glob_def fnmatch_def sample_fs_def Let_def)

theorem copy_to_docs_discards_docs_witness:
  "copy_to_docs sample_world = (Inr True, snd (copy_to_docs sample_world)) \<and>
   dir_lookup (docs_dir (fs sample_world)) ''old_page.html'' = Some (File ''stale'' 100) \<and>
   dir_lookup (docs_dir (fs (snd (copy_to_docs sample_world)))) ''old_page.html'' = None \<and>
   fs (snd (copy_to_docs sample_world)) =
     fs (snd (copy_to_docs (sample_world\<lparr>fs := (fs sample_world)\<lparr>docs_dir := Missing\<rparr>\<rparr>)))"
proof -
  have h: "copy_to_docs sample_world = (Inr True, snd (copy_to_docs sample_world))"
    using copy_to_docs_sample by (simp add: prod_eq_iff)
  show ?thesis
    using h copy_to_docs_discards_docs [OF h] copy_to_docs_sample
    by (simp add: dir_lookup_def sample_fs_def)
qed

theorem copy_to_docs_idempotent_witness:
  "docs_dir (fs (snd (copy_to_docs (snd (copy_to_docs sample_world))))) =
     IsDir [(''index.html'', File ''report'' 200),
            (''sentiment_report_latest.html'', File ''report'' 200),
            (''articles_AAPL_latest.html'', File ''apple'' 201)] \<and>
   fst (copy_to_docs (snd (copy_to_docs sample_world))) = Inr True"
  using copy_to_docs_idempotent [of sample_world] copy_to_docs_sample
  by simp

section \<open>Properties of \<open>cleanup_old_logs\<close>\<close>

lemma sweep_logs_entries:
  "logs_dir (fs w) = IsDir es \<Longrightarrow>
   fs (snd (sweep_logs t ns w)) = (fs w)\<lparr>logs_dir := IsDir (sweep_entries t ns es)\<rparr>"
proof (induction ns arbitrary: w es)
  case Nil
  then show ?case by simp
next
  case (Cons n ns)
  show ?case
  proof (cases "map_of es n")
    case None
    with Cons.prems show ?thesis by (simp add: stat_def dir_lookup_def)
  next
    case (Some e)
    show ?thesis
    proof (cases e)
      case (Subdir tt)
      with Some Cons.prems Cons.IH [of w es] show ?thesis
        by (simp add: stat_def dir_lookup_def unlink_log_def Let_def)
    next
      case (File c tt)
      let ?w2 = "log INFO ''Deleted old log: {log_file.name}''
                   ((emit (Unlink (''logs/'' @ n)) w)
                      \<lparr>fs := (fs w)\<lparr>logs_dir := IsDir (AList.delete n es)\<rparr>\<rparr>)"
      have l2: "logs_dir (fs ?w2) = IsDir (AList.delete n es)" by simp
      from File Some Cons.prems Cons.IH [of w es] Cons.IH [OF l2] show ?thesis
        by (simp add: stat_def dir_lookup_def unlink_log_def Let_def)
    qed
  qed
qed

lemma sweep_entries_sub:
  "map_of (sweep_entries t ns es) n = Some e \<Longrightarrow> map_of es n = Some e"
proof (induction ns arbitrary: es)
  case Nil
  then show ?case by simp
next
  case (Cons m ns)
  show ?case
  proof (cases "map_of es m")
    case None
    with Cons.prems show ?thesis by simp
  next
    case (Some em)
    show ?thesis
    proof (cases em)
      case (Subdir tt)
      show ?thesis
      proof (cases "tt < t")
        case True
        with Some Subdir Cons.prems show ?thesis by simp
      next
        case False
        with Some Subdir Cons.prems have "map_of (sweep_entries t ns es) n = Some e" by simp
        then show ?thesis by (rule Cons.IH)
      qed
    next
      case (File c tt)
      show ?thesis
      proof (cases "tt < t")
        case True
        with Some File Cons.prems
        have "map_of (sweep_entries t ns (AList.delete m es)) n = Some e" by simp
        then have "map_of (AList.delete m es) n = Some e" by (rule Cons.IH)
        then show ?thesis by (simp add: delete_conv' split: if_splits)
      next
        case False
        with Some File Cons.prems have "map_of (sweep_entries t ns es) n = Some e" by simp
        then show ?thesis by (rule Cons.IH)
      qed
    qed
  qed
qed

lemma sweep_entries_keeps:
  "map_of es n = Some e \<Longrightarrow>
   \<not> (n \<in> set ns \<and> entry_mtime e < t \<and> \<not> is_subdir (Some e)) \<Longrightarrow>
   map_of (sweep_entries t ns es) n = Some e"
proof (induction ns arbitrary: es)
  case Nil
  then show ?case by simp
next
  case (Cons m ns)
  from Cons.prems(2)
  have rest: "\<not> (n \<in> set ns \<and> entry_mtime e < t \<and> \<not> is_subdir (Some e))" by auto
  have same: "map_of (sweep_entries t ns es) n = Some e"
    using Cons.prems(1) rest by (rule Cons.IH)
  show ?case
  proof (cases "map_of es m")
    case None
    with Cons.prems show ?thesis by simp
  next
    case (Some em)
    show ?thesis
    proof (cases em)
      case (Subdir tt)
      with Some Cons.prems(1) same show ?thesis by simp
    next
      case (File c tt)
      show ?thesis
      proof (cases "tt < t")
        case True
        have "n \<noteq> m"
        proof
          assume "n = m"
          with Some File Cons.prems(1) have "e = File c tt" by simp
          with True \<open>n = m\<close> Cons.prems(2) show False by simp
        qed
        then have "map_of (AList.delete m es) n = Some e"
          using Cons.prems(1) by (simp add: delete_conv')
        then have "map_of (sweep_entries t ns (AList.delete m es)) n = Some e"
          using rest by (rule Cons.IH)
        with Some File True show ?thesis by simp
      next
        case False
        with Some File same show ?thesis by simp
      qed
    qed
  qed
qed

lemma sweep_entries_deletes:
  assumes "distinct ns" and "\<forall>m \<in> set ns. map_of es m \<noteq> None"
    and "\<forall>m \<in> set ns. \<forall>tt. map_of es m = Some (Subdir tt) \<longrightarrow> \<not> tt < t"
    and "n \<in> set ns" and "map_of es n = Some (File c tn)" and "tn < t"
  shows "map_of (sweep_entries t ns es) n = None"
  using assms
proof (induction ns arbitrary: es)
  case Nil
  then show ?case by simp
next
  case (Cons m ns)
  from Cons.prems(1) have d: "distinct ns" and mn: "m \<notin> set ns" by simp_all
  from Cons.prems(2) obtain em where em: "map_of es m = Some em" by auto
  have gone: "map_of es' n = None \<Longrightarrow> map_of (sweep_entries t ns es') n = None" for es'
  proof (rule ccontr)
    assume a: "map_of es' n = None" and "map_of (sweep_entries t ns es') n \<noteq> None"
    then obtain e where "map_of (sweep_entries t ns es') n = Some e" by auto
    from sweep_entries_sub [OF this] a show False by simp
  qed
  show ?case
  proof (cases em)
    case (Subdir tt)
    with em Cons.prems(3) have nold: "\<not> tt < t" by simp
    from Subdir em Cons.prems(5) have "n \<noteq> m" by auto
    with Cons.prems(4) have "n \<in> set ns" by simp
    with d Cons.prems(2,3,5,6) have "map_of (sweep_entries t ns es) n = None"
      by (intro Cons.IH) simp_all
    with em Subdir nold show ?thesis by simp
  next
    case (File cm tm)
    show ?thesis
    proof (cases "tm < t")
      case False
      with File em Cons.prems(5,6) have "n \<noteq> m" by auto
      with Cons.prems(4) have "n \<in> set ns" by simp
      with d Cons.prems(2,3,5,6) have "map_of (sweep_entries t ns es) n = None"
        by (intro Cons.IH) simp_all
      with em File False show ?thesis by simp
    next
      case True
      let ?es = "AList.delete m es"
      have res: "map_of (sweep_entries t ns ?es) n = None"
      proof (cases "n = m")
        case True
        then have "map_of ?es n = None" by (simp add: delete_conv')
        then show ?thesis by (rule gone)
      next
        case False
        with Cons.prems(4) have nin: "n \<in> set ns" by simp
        have p2: "\<forall>k \<in> set ns. map_of ?es k \<noteq> None"
          using Cons.prems(2) mn by (auto simp: delete_conv')
        have p3: "\<forall>k \<in> set ns. \<forall>tt. map_of ?es k = Some (Subdir tt) \<longrightarrow> \<not> tt < t"
          using Cons.prems(3) mn by (auto simp: delete_conv')
        have p5: "map_of ?es n = Some (File c tn)"
          using Cons.prems(5) False by (simp add: delete_conv')
        from d p2 p3 nin p5 Cons.prems(6) show ?thesis by (rule Cons.IH)
      qed
      with em File True show ?thesis by simp
    qed
  qed
qed

lemma glob_logs:
  "distinct (glob pre suf (IsDir es))"
  "n \<in> set (glob pre suf (IsDir es)) \<longleftrightarrow> fnmatch pre suf n \<and> map_of es n \<noteq> None"
proof -
  show "distinct (glob pre suf (IsDir es))"
    by (simp add: glob_def distinct_clearjunk)
  have "set (map fst (AList.clearjunk es)) = fst ` set es"
    using dom_map_of_conv_image_fst [of "AList.clearjunk es"] dom_map_of_conv_image_fst [of es]
    by (simp add: map_of_clearjunk)
  then show "n \<in> set (glob pre suf (IsDir es)) \<longleftrightarrow> fnmatch pre suf n \<and> map_of es n \<noteq> None"
    by (auto simp: glob_def map_of_eq_None_iff)
qed

lemma cleanup_old_logs_fs:
  "fs (snd (cleanup_old_logs w)) =
     (case logs_dir (fs w) of
        IsDir es \<Rightarrow>
          (fs w)\<lparr>logs_dir :=
             IsDir (sweep_entries (retention_bound w) (glob [] ''.log'' (IsDir es)) es)\<rparr>
      | _ \<Rightarrow> fs w)"
proof (cases "logs_dir (fs w)")
  case Missing
  then show ?thesis
    by (simp add: cleanup_old_logs_def cleanup_old_logs_body_def except_Exception_def)
next
  case NotDir
  then show ?thesis
    by (simp add: cleanup_old_logs_def cleanup_old_logs_body_def except_Exception_def
          glob_def Let_def)
next
  case (IsDir es)
  let ?w0 = "emit (Call ''cleanup_old_logs'') w"
  let ?t = "retention_bound w"
  let ?ns = "glob [] ''.log'' (IsDir es)"
  from IsDir have l0: "logs_dir (fs ?w0) = IsDir es" by simp
  obtain r w1 where sw: "sweep_logs ?t ?ns ?w0 = (r, w1)" by (cases "sweep_logs ?t ?ns ?w0")
  from sweep_logs_entries [OF l0, of ?t ?ns] sw
  have f1: "fs w1 = (fs w)\<lparr>logs_dir := IsDir (sweep_entries ?t ?ns es)\<rparr>" by simp
  from IsDir sw have body: "cleanup_old_logs_body ?w0 = (r, w1)"
    by (simp add: cleanup_old_logs_body_def Let_def retention_bound_def)
  have "fs (snd (cleanup_old_logs w)) = fs w1"
    by (simp add: cleanup_old_logs_def except_Exception_def body do_log_def split: sum.splits)
  with f1 IsDir show ?thesis by simp
qed

text \<open>
  Claim C5 says that \<open>cleanup_old_logs\<close> deletes exactly the \<open>.log\<close> files older than
  the bound. It does not when an entry of \<open>logs\<close> that matches \<open>*.log\<close> and is older
  than the bound is a directory: \<open>unlink\<close> raises on it, the handler logs a warning, and
  the loop is over. Here \<open>archive.log\<close> is such a directory and the listing of
  \<open>logs\<close> yields it first; the file \<open>app.log\<close>, which is older than the bound, is
  still there afterwards.
\<close>

theorem cleanup_stops_at_a_directory:
  "fnmatch [] ''.log'' ''app.log'' \<and>
   dir_lookup (logs_dir (fs archive_world)) ''app.log'' = Some (File ''x'' 0) \<and>
   0 < retention_bound archive_world \<and>
   dir_lookup (logs_dir (fs (snd (cleanup_old_logs archive_world)))) ''app.log'' =
     Some (File ''x'' 0) \<and>
   fst (cleanup_old_logs archive_world) = Inr () \<and>
   Log WARNING ''Log cleanup warning: {e}''
     \<in> set (trace (snd (cleanup_old_logs archive_world)))"
  by (simp add: cleanup_old_logs_def cleanup_old_logs_body_def except_Exception_def
        do_log_def glob_def fnmatch_def stat_def unlink_log_def dir_lookup_def Let_def
        retention_bound_def archive_world_def sample_fs_def)

text \<open>
  Claim C5 as amended: \<open>cleanup_old_logs\<close> returns without raising and changes nothing
  but \<open>logs\<close>; every entry of \<open>logs\<close> afterwards was there before, unchanged; every
  entry that is not a \<open>.log\<close> file with a modification time strictly below the bound
  (now minus 30 days) is retained unchanged, so an entry at the bound or newer, one whose
  name does not end in \<open>.log\<close>, and every directory; and when no directory named
  \<open>*.log\<close> is older than the bound, every \<open>.log\<close> file older than the bound is
  deleted. (Unchanged is said of what the function does to the directory: what the
  handlers of its logger append to a file of their own is not part of an entry.)
\<close>

theorem cleanup_old_logs_deletes_old_logs:
  "fst (cleanup_old_logs w) = Inr () \<and>
   fs (snd (cleanup_old_logs w)) =
     (fs w)\<lparr>logs_dir := logs_dir (fs (snd (cleanup_old_logs w)))\<rparr> \<and>
   (\<forall>n e. dir_lookup (logs_dir (fs (snd (cleanup_old_logs w)))) n = Some e \<longrightarrow>
      dir_lookup (logs_dir (fs w)) n = Some e) \<and>
   (\<forall>n e. dir_lookup (logs_dir (fs w)) n = Some e \<and>
      \<not> (fnmatch [] ''.log'' n \<and> entry_mtime e < retention_bound w \<and> \<not> is_subdir (Some e)) \<longrightarrow>
      dir_lookup (logs_dir (fs (snd (cleanup_old_logs w)))) n = Some e) \<and>
   ((\<forall>n tt. dir_lookup (logs_dir (fs w)) n = Some (Subdir tt) \<and> fnmatch [] ''.log'' n \<longrightarrow>
       \<not> tt < retention_bound w) \<longrightarrow>
    (\<forall>n c tt. dir_lookup (logs_dir (fs w)) n = Some (File c tt) \<and> fnmatch [] ''.log'' n \<and>
       tt < retention_bound w \<longrightarrow>
       dir_lookup (logs_dir (fs (snd (cleanup_old_logs w)))) n = None))"
proof -
  have ret: "fst (cleanup_old_logs w) = Inr ()"
    using cleanup_old_logs_returns [of w] by auto
  show ?thesis
  proof (cases "logs_dir (fs w)")
    case Missing
    with ret show ?thesis by (simp add: cleanup_old_logs_fs dir_lookup_def)
  next
    case NotDir
    with ret show ?thesis by (simp add: cleanup_old_logs_fs dir_lookup_def)
  next
    case (IsDir es)
    let ?t = "retention_bound w"
    let ?ns = "glob [] ''.log'' (IsDir es)"
    let ?es' = "sweep_entries ?t ?ns es"
    from IsDir have f: "fs (snd (cleanup_old_logs w)) = (fs w)\<lparr>logs_dir := IsDir ?es'\<rparr>"
      by (simp add: cleanup_old_logs_fs)
    have sub: "map_of ?es' n = Some e \<Longrightarrow> map_of es n = Some e" for n e
      by (rule sweep_entries_sub)
    have keep: "map_of ?es' n = Some e"
      if "map_of es n = Some e"
        and "\<not> (fnmatch [] ''.log'' n \<and> entry_mtime e < ?t \<and> \<not> is_subdir (Some e))" for n e
    proof (rule sweep_entries_keeps [OF that(1)])
      from that(2) show "\<not> (n \<in> set ?ns \<and> entry_mtime e < ?t \<and> \<not> is_subdir (Some e))"
        by (auto simp: glob_logs(2))
    qed
    have del: "map_of ?es' n = None"
      if nodir: "\<forall>n tt. map_of es n = Some (Subdir tt) \<and> fnmatch [] ''.log'' n \<longrightarrow> \<not> tt < ?t"
        and "map_of es n = Some (File c tt)" and "fnmatch [] ''.log'' n" and "tt < ?t" for n c tt
    proof (rule sweep_entries_deletes [of ?ns es ?t n c tt])
      show "distinct ?ns" by (rule glob_logs(1))
      show "\<forall>m \<in> set ?ns. map_of es m \<noteq> None" by (simp add: glob_logs(2))
      show "\<forall>m \<in> set ?ns. \<forall>tt. map_of es m = Some (Subdir tt) \<longrightarrow> \<not> tt < ?t"
        using nodir by (auto simp: glob_logs(2))
      show "n \<in> set ?ns" using that(2,3) by (simp add: glob_logs(2))
      show "map_of es n = Some (File c tt)" by (rule that(2))
      show "tt < ?t" by (rule that(4))
    qed
    have l: "logs_dir (fs w) = IsDir es"
      and l': "logs_dir (fs (snd (cleanup_old_logs w))) = IsDir ?es'"
      using IsDir f by simp_all
    have c2: "fs (snd (cleanup_old_logs w)) =
        (fs w)\<lparr>logs_dir := logs_dir (fs (snd (cleanup_old_logs w)))\<rparr>"
      unfolding f by simp
    have c3: "\<forall>n e. dir_lookup (logs_dir (fs (snd (cleanup_old_logs w)))) n = Some e \<longrightarrow>
        dir_lookup (logs_dir (fs w)) n = Some e"
      unfolding l l' dir_lookup_def dirstate.case using sub by blast
    have c4: "\<forall>n e. dir_lookup (logs_dir (fs w)) n = Some e \<and>
        \<not> (fnmatch [] ''.log'' n \<and> entry_mtime e < ?t \<and> \<not> is_subdir (Some e)) \<longrightarrow>
        dir_lookup (logs_dir (fs (snd (cleanup_old_logs w)))) n = Some e"
      unfolding l l' dir_lookup_def dirstate.case using keep by blast
    have c5: "(\<forall>n tt. dir_lookup (logs_dir (fs w)) n = Some (Subdir tt) \<and> fnmatch [] ''.log'' n \<longrightarrow>
         \<not> tt < ?t) \<longrightarrow>
      (\<forall>n c tt. dir_lookup (logs_dir (fs w)) n = Some (File c tt) \<and> fnmatch [] ''.log'' n \<and>
         tt < ?t \<longrightarrow>
         dir_lookup (logs_dir (fs (snd (cleanup_old_logs w)))) n = None)"
      unfolding l l' dir_lookup_def dirstate.case
    proof (intro impI allI)
      fix n c tt
      assume nodir: "\<forall>n tt. map_of es n = Some (Subdir tt) \<and> fnmatch [] ''.log'' n \<longrightarrow> \<not> tt < ?t"
        and a: "map_of es n = Some (File c tt) \<and> fnmatch [] ''.log'' n \<and> tt < ?t"
      from a have a1: "map_of es n = Some (File c tt)" and a2: "fnmatch [] ''.log'' n"
        and a3: "tt < ?t" by simp_all
      from nodir a1 a2 a3 show "map_of ?es' n = None" by (rule del)
    qed
    from ret c2 c3 c4 c5 show ?thesis by (intro conjI)
  qed
qed

theorem cleanup_old_logs_deletes_old_logs_witness:
  "logs_dir (fs (snd (cleanup_old_logs stale_logs_world))) =
     IsDir [(''notes.txt'', File ''b'' 0), (''edge.log'', File ''c'' 2408000),
            (''new.log'', File ''d'' 4999999)] \<and>
   retention_bound stale_logs_world = 2408000 \<and>
   dir_lookup (logs_dir (fs stale_logs_world)) ''old.log'' = Some (File ''a'' 0) \<and>
   dir_lookup (logs_dir (fs (snd (cleanup_old_logs stale_logs_world)))) ''old.log'' = None \<and>
   dir_lookup (logs_dir (fs (snd (cleanup_old_logs stale_logs_world)))) ''edge.log'' =
     Some (File ''c'' 2408000)"
proof -
  have a: "logs_dir (fs (snd (cleanup_old_logs stale_logs_world))) =
     IsDir [(''notes.txt'', File ''b'' 0), (''edge.log'', File ''c'' 2408000),
            (''new.log'', File ''d'' 4999999)]"
    by (simp add: cleanup_old_logs_fs glob_def fnmatch_def retention_bound_def
          stale_logs_world_def sample_fs_def)
  have b: "retention_bound stale_logs_world = 2408000"
    by (simp add: retention_bound_def stale_logs_world_def)
  show ?thesis
    using a b cleanup_old_logs_deletes_old_logs [of stale_logs_world]
    by (simp add: dir_lookup_def stale_logs_world_def sample_fs_def)
qed

end
